theory Spec2Isabelle
  imports Main "HOL-Library.Multiset"
begin

section \<open>Data model (types.ts)\<close>

text \<open>
  JavaScript strings are modelled as \<^typ>\<open>string\<close>: one \<^typ>\<open>char\<close> per UTF-16 code unit,
  for code units below 256. Line numbers are JavaScript numbers holding integers and are
  modelled as \<^typ>\<open>int\<close>; array indices and lengths are \<^typ>\<open>nat\<close>.
\<close>

record paramTag =
  paramName :: string
  paramType :: string
  paramDescription :: string

record returnTag =
  returnType :: string
  returnDescription :: string

record throwsTag =
  throwsType :: string
  throwsDescription :: string

record tagTable =
  params :: "paramTag list"
  returns :: "returnTag option"
  throws :: "throwsTag list"
  since :: "string option"
  author :: "string option"
  deprecated :: "string option"
  see :: "string list"
  doc :: "string option"
  example :: "string option"

datatype methodKind = KConstructor | KMethod

datatype accessModifier = Public | Protected | Private | Default

record methodDoc =
  methodId :: string
  methodKind :: methodKind
  methodName :: string
  signature :: string
  startLine :: int
  endLine :: int
  hasComment :: bool
  description :: string
  tags :: tagTable
  belongsTo :: string
  accessModifier :: accessModifier

section \<open>Cursor locator (utils/binarySearch)\<close>

text \<open>
  The \<open>while (left < right)\<close> loop of \<open>findRightmostStartLineAtOrBefore\<close>.
  \<open>methods[mid]\<close> is \<open>undefined\<close> exactly when \<open>mid\<close> is not an index of the array.
\<close>

function findLoop :: "methodDoc list \<Rightarrow> int \<Rightarrow> nat \<Rightarrow> nat \<Rightarrow> nat" where
  "findLoop methods cursorLine left right =
     (if left < right
      then (let mid = left + (right - left) div 2
            in if mid < length methods \<and> startLine (methods ! mid) \<le> cursorLine
               then findLoop methods cursorLine (mid + 1) right
               else findLoop methods cursorLine left mid)
      else left)"
  by pat_completeness auto
termination
  by (relation "measure (\<lambda>(methods, cursorLine, left, right). right - left)") auto

declare findLoop.simps [simp del]

definition findRightmostStartLineAtOrBefore :: "methodDoc list \<Rightarrow> int \<Rightarrow> int" where
  "findRightmostStartLineAtOrBefore methods cursorLine =
     int (findLoop methods cursorLine 0 (length methods)) - 1"

definition isLineInsideMethod :: "methodDoc \<Rightarrow> int \<Rightarrow> bool" where
  "isLineInsideMethod method cursorLine \<longleftrightarrow>
     startLine method \<le> cursorLine \<and> cursorLine \<le> endLine method"

definition binarySearchMethod :: "methodDoc list \<Rightarrow> int \<Rightarrow> methodDoc option" where
  "binarySearchMethod methods cursorLine =
     (if length methods = 0 then None
      else
        let first = methods ! 0;
            last = methods ! (length methods - 1)
        in if cursorLine < startLine first \<or> cursorLine > endLine last then None
           else
             let candidateIndex = findRightmostStartLineAtOrBefore methods cursorLine
             in if candidateIndex < 0 then None
                else if \<not> nat candidateIndex < length methods then None
                else
                  let candidate = methods ! nat candidateIndex
                  in if isLineInsideMethod candidate cursorLine then Some candidate else None)"

text \<open>The precondition of the locator: the list is ascending by start line.\<close>

definition sortedByStart :: "methodDoc list \<Rightarrow> bool" where
  "sortedByStart methods \<longleftrightarrow> sorted (map startLine methods)"

definition sortedByEnd :: "methodDoc list \<Rightarrow> bool" where
  "sortedByEnd methods \<longleftrightarrow> sorted (map endLine methods)"

text \<open>The declarations whose start line is at or before the query line, in list order.\<close>

definition startedAtOrBefore :: "methodDoc list \<Rightarrow> int \<Rightarrow> methodDoc list" where
  "startedAtOrBefore methods cursorLine = filter (\<lambda>m. startLine m \<le> cursorLine) methods"

text \<open>A small document used for concrete checks: only the two line fields matter.\<close>

definition emptyTagTable :: tagTable where
  "emptyTagTable =
     \<lparr>params = [], returns = None, throws = [], since = None, author = None,
      deprecated = None, see = [], doc = None, example = None\<rparr>"

definition mkDoc :: "int \<Rightarrow> int \<Rightarrow> methodDoc" where
  "mkDoc s e =
     \<lparr>methodId = [], methodKind = KMethod, methodName = [], signature = [],
      startLine = s, endLine = e, hasComment = False, description = [],
      tags = emptyTagTable, belongsTo = [], accessModifier = Default\<rparr>"

section \<open>Symbol tree (vscode.DocumentSymbol) and its classification (SymbolResolver.ts)\<close>

text \<open>
  The \<open>SymbolKind\<close> enumeration, \<open>Position\<close>, \<open>Range\<close> and \<open>DocumentSymbol\<close> of the editor API.
  The provider's result is only duck-typed on its first element (\<open>normalizeDocumentSymbols\<close>),
  so a later symbol may lack \<open>range\<close> or \<open>selectionRange\<close>: both are optional here, and
  reading a field of a missing one is the \<open>TypeError\<close> of the source.
\<close>

datatype symbolKind =
    SkFile | SkModule | SkNamespace | SkPackage | SkClass | SkMethod | SkProperty | SkField
  | SkConstructor | SkEnum | SkInterface | SkFunction | SkVariable | SkConstant | SkString
  | SkNumber | SkBoolean | SkArray | SkObject | SkKey | SkNull | SkEnumMember | SkStruct
  | SkEvent | SkOperator | SkTypeParameter

record position =
  line :: int
  character :: int

record lineRange =
  rangeStart :: position
  rangeEnd :: position

datatype documentSymbol =
  DocumentSymbol (name: string) (detail: string) (kind: symbolKind)
    (symbolRange: "lineRange option") (selectionRange: "lineRange option")
    (children: "documentSymbol list")

definition CLASS_LIKE_KINDS :: "symbolKind set" where
  "CLASS_LIKE_KINDS = {SkClass, SkInterface, SkEnum}"

definition METHOD_KINDS :: "symbolKind set" where
  "METHOD_KINDS = {SkMethod, SkConstructor, SkFunction}"

definition FIELD_KINDS :: "symbolKind set" where
  "FIELD_KINDS = {SkField, SkConstant}"

definition isClassLikeSymbol :: "documentSymbol \<Rightarrow> bool" where
  "isClassLikeSymbol symbol \<longleftrightarrow> kind symbol \<in> CLASS_LIKE_KINDS"

definition isMethodSymbol :: "documentSymbol \<Rightarrow> bool" where
  "isMethodSymbol symbol \<longleftrightarrow> kind symbol \<in> METHOD_KINDS"

definition isFieldSymbol :: "documentSymbol \<Rightarrow> bool" where
  "isFieldSymbol symbol \<longleftrightarrow> kind symbol \<in> FIELD_KINDS"

definition isEnumMemberSymbol :: "documentSymbol \<Rightarrow> bool" where
  "isEnumMemberSymbol symbol \<longleftrightarrow> kind symbol = SkEnumMember"

definition isConstructorSymbol :: "documentSymbol \<Rightarrow> bool" where
  "isConstructorSymbol symbol \<longleftrightarrow> kind symbol = SkConstructor"

section \<open>Symbol cache (SymbolResolver.ts)\<close>

text \<open>
  A JavaScript \<open>Map\<close> keeps its entries in insertion order: \<open>set\<close> on a key that is present
  replaces the value in place, \<open>set\<close> on a new key appends, \<open>delete\<close> removes, and
  \<open>keys().next().value\<close> is the first key (or \<open>undefined\<close> on an empty map).
\<close>

type_synonym ('k, 'v) jsMap = "('k \<times> 'v) list"

definition mapHas :: "('k, 'v) jsMap \<Rightarrow> 'k \<Rightarrow> bool" where
  "mapHas m k \<longleftrightarrow> k \<in> fst ` set m"

definition mapGet :: "('k, 'v) jsMap \<Rightarrow> 'k \<Rightarrow> 'v option" where
  "mapGet m k = map_of m k"

definition mapDelete :: "('k, 'v) jsMap \<Rightarrow> 'k \<Rightarrow> ('k, 'v) jsMap" where
  "mapDelete m k = filter (\<lambda>e. fst e \<noteq> k) m"

definition mapSet :: "('k, 'v) jsMap \<Rightarrow> 'k \<Rightarrow> 'v \<Rightarrow> ('k, 'v) jsMap" where
  "mapSet m k v =
     (if mapHas m k then map (\<lambda>e. if fst e = k then (k, v) else e) m else m @ [(k, v)])"

definition mapFirstKey :: "('k, 'v) jsMap \<Rightarrow> 'k option" where
  "mapFirstKey m = (case m of [] \<Rightarrow> None | e # _ \<Rightarrow> Some (fst e))"

definition MAX_CACHE_ENTRIES :: nat where
  "MAX_CACHE_ENTRIES = 128"

record cachedSymbols =
  version :: int
  symbols :: "documentSymbol list"

type_synonym symbolCache = "(string, cachedSymbols) jsMap"

text \<open>\<open>getCachedSymbols\<close> returns its result together with the updated cache.\<close>

definition getCachedSymbols ::
  "symbolCache \<Rightarrow> string \<Rightarrow> int \<Rightarrow> documentSymbol list option \<times> symbolCache" where
  "getCachedSymbols symbolCache cacheKey ver =
     (case mapGet symbolCache cacheKey of
        None \<Rightarrow> (None, symbolCache)
      | Some cached \<Rightarrow>
          if version cached \<noteq> ver then (None, symbolCache)
          else (Some (symbols cached), mapSet (mapDelete symbolCache cacheKey) cacheKey cached))"

definition setCachedSymbols ::
  "symbolCache \<Rightarrow> string \<Rightarrow> int \<Rightarrow> documentSymbol list \<Rightarrow> symbolCache" where
  "setCachedSymbols symbolCache cacheKey ver syms =
     (let evicted =
            (if \<not> mapHas symbolCache cacheKey \<and> length symbolCache \<ge> MAX_CACHE_ENTRIES
             then (case mapFirstKey symbolCache of
                     Some oldestKey \<Rightarrow> mapDelete symbolCache oldestKey
                   | None \<Rightarrow> symbolCache)
             else symbolCache)
      in mapSet evicted cacheKey \<lparr>version = ver, symbols = syms\<rparr>)"






section \<open>Symbol tree flattening (JavaDocParser.flattenSymbols)\<close>

record flattenedSymbol =
  symbol :: documentSymbol
  owner :: string

text \<open>
  The field \<open>belongsTo\<close> of the source's flattened symbol is called \<open>owner\<close> here, since
  \<open>belongsTo\<close> already names the field of a method document. A string is falsy exactly when
  it is empty, which is what the conditional on \<open>parentName\<close> and \<open>parentName || "Unknown"\<close> test.
\<close>

fun flattenSymbols :: "documentSymbol list \<Rightarrow> string \<Rightarrow> flattenedSymbol list" where
  "flattenSymbols [] parentName = []"
| "flattenSymbols (DocumentSymbol n d k r sr ch # rest) parentName =
     (let symbol = DocumentSymbol n d k r sr ch
      in (if isClassLikeSymbol symbol
          then (let currentClass = (if parentName \<noteq> [] then parentName @ ''.'' @ n else n)
                in if length ch > 0 then flattenSymbols ch currentClass else [])
          else if isMethodSymbol symbol \<or> isFieldSymbol symbol \<or> isEnumMemberSymbol symbol
          then [\<lparr>symbol = symbol, owner = (if parentName \<noteq> [] then parentName else ''Unknown'')\<rparr>]
          else [])
         @ flattenSymbols rest parentName)"

text \<open>\<open>Array.prototype.join\<close>.\<close>

fun joinWith :: "'a list \<Rightarrow> 'a list list \<Rightarrow> 'a list" where
  "joinWith sep [] = []"
| "joinWith sep [x] = x"
| "joinWith sep (x # y # ys) = x @ sep @ joinWith sep (y # ys)"

text \<open>
  The statement of what flattening emits. \<open>reaches roots chain s\<close>: the symbol \<open>s\<close> is reached
  from \<open>roots\<close> by descending through class-like containers only, whose names, outermost
  first, are \<open>chain\<close>. A leaf is a symbol of a method, field or enum-member kind.
\<close>

inductive reaches :: "documentSymbol list \<Rightarrow> string list \<Rightarrow> documentSymbol \<Rightarrow> bool" where
  here: "s \<in> set roots \<Longrightarrow> reaches roots [] s"
| down: "c \<in> set roots \<Longrightarrow> isClassLikeSymbol c \<Longrightarrow> reaches (children c) chain s
         \<Longrightarrow> reaches roots (name c # chain) s"

definition isLeafSymbol :: "documentSymbol \<Rightarrow> bool" where
  "isLeafSymbol s \<longleftrightarrow> isMethodSymbol s \<or> isFieldSymbol s \<or> isEnumMemberSymbol s"

text \<open>
  The owner tag of a chain of container names: the names joined by dots once leading empty
  names are skipped, or \<open>Unknown\<close> when nothing is left.
\<close>

definition ownerTag :: "string list \<Rightarrow> string" where
  "ownerTag chain =
     (let path = joinWith ''.'' (dropWhile (\<lambda>n. n = []) chain)
      in if path = [] then ''Unknown'' else path)"

text \<open>
  The tag given below a running owner path \<open>parentName\<close> after descending through a further
  chain of containers; it generalises \<open>ownerTag\<close>, which starts from the empty path.
\<close>

definition tagOf :: "string \<Rightarrow> string list \<Rightarrow> string" where
  "tagOf parentName chain =
     (if parentName \<noteq> [] then parentName @ concat (map (\<lambda>y. ''.'' @ y) chain)
      else ownerTag chain)"

text \<open>Symbols for concrete checks.\<close>

definition mkSymbol :: "string \<Rightarrow> symbolKind \<Rightarrow> documentSymbol list \<Rightarrow> documentSymbol" where
  "mkSymbol n k ch = DocumentSymbol n [] k None None ch"

definition sampleTree :: "documentSymbol list" where
  "sampleTree =
     [mkSymbol ''Outer'' SkClass
        [mkSymbol ''m'' SkMethod [mkSymbol ''local'' SkFunction []],
         mkSymbol ''Inner'' SkEnum [mkSymbol ''A'' SkEnumMember []],
         mkSymbol ''v'' SkVariable [mkSymbol ''g'' SkMethod []]]]"

definition unnamedTree :: "documentSymbol list" where
  "unnamedTree =
     [mkSymbol [] SkClass
        [mkSymbol ''m'' SkMethod [],
         mkSymbol ''B'' SkClass [mkSymbol ''f'' SkField []]]]"

section \<open>JavaScript strings and the regular expressions of the parsers\<close>

text \<open>
  Character classes of the regular expressions, on code units below 256:
  \<open>\s\<close> (also what \<open>trim\<close> removes) is tab, line feed, vertical tab, form feed, carriage
  return, space and no-break space; \<open>.\<close> matches everything but line feed and carriage
  return; \<open>\w\<close> is \<open>[A-Za-z0-9_]\<close>.
\<close>

definition charCode :: "char \<Rightarrow> nat" where
  "charCode c = of_char c"

definition isSpace :: "char \<Rightarrow> bool" where
  "isSpace c \<longleftrightarrow>
     c = CHR 0x09 \<or> c = CHR 0x0A \<or> c = CHR 0x0B \<or> c = CHR 0x0C \<or> c = CHR 0x0D
     \<or> c = CHR 0x20 \<or> c = CHR 0xA0"

definition isLineTerminator :: "char \<Rightarrow> bool" where
  "isLineTerminator c \<longleftrightarrow> c = CHR 0x0A \<or> c = CHR 0x0D"

definition isUpper :: "char \<Rightarrow> bool" where
  "isUpper c \<longleftrightarrow> 65 \<le> charCode c \<and> charCode c \<le> 90"

definition isLower :: "char \<Rightarrow> bool" where
  "isLower c \<longleftrightarrow> 97 \<le> charCode c \<and> charCode c \<le> 122"

definition isDigit :: "char \<Rightarrow> bool" where
  "isDigit c \<longleftrightarrow> 48 \<le> charCode c \<and> charCode c \<le> 57"

definition isWord :: "char \<Rightarrow> bool" where
  "isWord c \<longleftrightarrow> isUpper c \<or> isLower c \<or> isDigit c \<or> c = CHR ''_''"

text \<open>\<open>[A-Za-z_$]\<close>, \<open>[\w$]\<close> and \<open>[\w.]\<close>.\<close>

definition isIdentStart :: "char \<Rightarrow> bool" where
  "isIdentStart c \<longleftrightarrow> isUpper c \<or> isLower c \<or> c = CHR ''_'' \<or> c = CHR ''$''"

definition isIdentPart :: "char \<Rightarrow> bool" where
  "isIdentPart c \<longleftrightarrow> isWord c \<or> c = CHR ''$''"

definition isWordOrDot :: "char \<Rightarrow> bool" where
  "isWordOrDot c \<longleftrightarrow> isWord c \<or> c = CHR ''.''"

text \<open>\<open>String.prototype.toLowerCase\<close> on code units below 256.\<close>

definition toLowerChar :: "char \<Rightarrow> char" where
  "toLowerChar c =
     (let n = charCode c
      in if (65 \<le> n \<and> n \<le> 90) \<or> (192 \<le> n \<and> n \<le> 222 \<and> n \<noteq> 215)
         then char_of (n + 32) else c)"

definition toLowerCase :: "string \<Rightarrow> string" where
  "toLowerCase s = map toLowerChar s"

definition trimStart :: "string \<Rightarrow> string" where
  "trimStart s = dropWhile isSpace s"

definition trimEnd :: "string \<Rightarrow> string" where
  "trimEnd s = rev (dropWhile isSpace (rev s))"

definition trim :: "string \<Rightarrow> string" where
  "trim s = trimEnd (trimStart s)"

fun startsWith :: "string \<Rightarrow> string \<Rightarrow> bool" where
  "startsWith s [] = True"
| "startsWith [] (p # ps) = False"
| "startsWith (c # cs) (p # ps) = (c = p \<and> startsWith cs ps)"

definition endsWith :: "string \<Rightarrow> string \<Rightarrow> bool" where
  "endsWith s p = startsWith (rev s) (rev p)"

fun includesStr :: "string \<Rightarrow> string \<Rightarrow> bool" where
  "includesStr [] p = (p = [])"
| "includesStr (c # cs) p = (startsWith (c # cs) p \<or> includesStr cs p)"

text \<open>\<open>indexOf\<close> and \<open>lastIndexOf\<close> of a single character; \<open>None\<close> stands for \<open>-1\<close>.\<close>

fun indexOf :: "string \<Rightarrow> char \<Rightarrow> nat option" where
  "indexOf [] ch = None"
| "indexOf (c # cs) ch = (if c = ch then Some 0 else map_option Suc (indexOf cs ch))"

definition lastIndexOf :: "string \<Rightarrow> char \<Rightarrow> nat option" where
  "lastIndexOf s ch = map_option (\<lambda>i. length s - 1 - i) (indexOf (rev s) ch)"

text \<open>\<open>s.slice(a, b)\<close> and \<open>s.slice(a)\<close> for indices within the string.\<close>

definition slice :: "'a list \<Rightarrow> nat \<Rightarrow> nat \<Rightarrow> 'a list" where
  "slice s a b = take (b - a) (drop a s)"

definition sliceFrom :: "'a list \<Rightarrow> nat \<Rightarrow> 'a list" where
  "sliceFrom s a = drop a s"

text \<open>\<open>s.split("\n")\<close> and the like: the result is never empty.\<close>

fun splitChar :: "char \<Rightarrow> string \<Rightarrow> string list" where
  "splitChar sep [] = [[]]"
| "splitChar sep (c # cs) =
     (if c = sep then [] # splitChar sep cs
      else (case splitChar sep cs of
              [] \<Rightarrow> [[c]]
            | l # ls \<Rightarrow> (c # l) # ls))"

text \<open>
  \<open>s.split(/\r?\n/)\<close>: cut at every line feed; a carriage return right before the line feed
  belongs to the separator.
\<close>

definition stripCR :: "string \<Rightarrow> string" where
  "stripCR l = (if l \<noteq> [] \<and> last l = CHR 0x0D then butlast l else l)"

definition splitLines :: "string \<Rightarrow> string list" where
  "splitLines s = (let segs = splitChar CHR 0x0A s in map stripCR (butlast segs) @ [last segs])"

text \<open>\<open>xs[i] ?? ""\<close> for an index that may lie outside the array.\<close>

definition lineAt :: "string list \<Rightarrow> int \<Rightarrow> string" where
  "lineAt ls i = (if 0 \<le> i \<and> nat i < length ls then ls ! nat i else [])"

section \<open>Tag table parser (parser/TagParser.ts)\<close>

record parsedTagBlock =
  tag :: string
  content :: string

definition SUPPORTED_TAGS :: "string list" where
  "SUPPORTED_TAGS =
     [''param'', ''return'', ''returns'', ''throws'', ''exception'', ''since'', ''author'',
      ''deprecated'', ''see'', ''doc'', ''example'']"

definition isSupportedTag :: "string \<Rightarrow> bool" where
  "isSupportedTag v \<longleftrightarrow> v \<in> set SUPPORTED_TAGS"

text \<open>
  \<open>TAG_LINE_PATTERN\<close>, anchored at both ends and case-insensitive:
  optional white space, an optional \<open>*\<close>, optional white space, \<open>@\<close>, a tag name that ends
  at a word boundary, optional white space, and the content, which \<open>.\<close> must match up to the
  end of the line. The word after \<open>@\<close> is the longest run of word characters, because
  \<open>\b\<close> must follow a name that ends in a word character; the content starts after the
  longest run of white space. The result is the pair of the groups \<open>tag\<close> and \<open>content\<close>.
\<close>

definition matchTagLine :: "string \<Rightarrow> (string \<times> string) option" where
  "matchTagLine l =
     (let s1 = dropWhile isSpace l;
          s2 = (case s1 of
                  [] \<Rightarrow> s1
                | c # t \<Rightarrow> if c = CHR ''*'' then dropWhile isSpace t else s1)
      in case s2 of
           [] \<Rightarrow> None
         | c # t \<Rightarrow>
             if c \<noteq> CHR ''@'' then None
             else
               let w = takeWhile isWord t;
                   cont = dropWhile isSpace (dropWhile isWord t)
               in if toLowerCase w \<in> set SUPPORTED_TAGS \<and> \<not> (\<exists>x\<in>set cont. isLineTerminator x)
                  then Some (w, cont) else None)"

text \<open>\<open>line.replace(/^\s*\*\s?/, "")\<close>.\<close>

definition normalizeJavadocLine :: "string \<Rightarrow> string" where
  "normalizeJavadocLine l =
     (case dropWhile isSpace l of
        [] \<Rightarrow> l
      | c # t \<Rightarrow>
          if c = CHR ''*''
          then (case t of [] \<Rightarrow> [] | d # u \<Rightarrow> if isSpace d then u else t)
          else l)"

record tokenizerState =
  blocks :: "parsedTagBlock list"
  activeTag :: "string option"
  buffer :: "string list"

definition flush :: "tokenizerState \<Rightarrow> tokenizerState" where
  "flush st =
     (case activeTag st of
        None \<Rightarrow> st
      | Some t \<Rightarrow>
          \<lparr>blocks = blocks st @ [\<lparr>tag = t, content = trim (joinWith [CHR 0x0A] (buffer st))\<rparr>],
           activeTag = None, buffer = []\<rparr>)"

text \<open>The body of the loop over the lines in \<open>tokenizeTagBlocks\<close>.\<close>

definition tokenizeLine :: "tokenizerState \<Rightarrow> string \<Rightarrow> tokenizerState" where
  "tokenizeLine st rawLine =
     (let l = normalizeJavadocLine rawLine
      in case matchTagLine l of
           Some (tg, ct) \<Rightarrow>
             (let st1 = flush st;
                  tagText = toLowerCase tg
              in if isSupportedTag tagText
                 then st1\<lparr>activeTag := Some tagText, buffer := buffer st1 @ [trim ct]\<rparr>
                 else st1)
         | None \<Rightarrow>
             (if activeTag st \<noteq> None then st\<lparr>buffer := buffer st @ [trim l]\<rparr> else st))"

definition tokenizeTagBlocks :: "string \<Rightarrow> parsedTagBlock list" where
  "tokenizeTagBlocks rawTags =
     blocks (flush (foldl tokenizeLine \<lparr>blocks = [], activeTag = None, buffer = []\<rparr>
                      (splitLines rawTags)))"

text \<open>
  \<open>findMatchingIndex\<close>: the loop from \<open>startIndex\<close> with its depth counter; \<open>None\<close> stands
  for \<open>-1\<close>.
\<close>

fun findMatchingLoop :: "char \<Rightarrow> char \<Rightarrow> string \<Rightarrow> int \<Rightarrow> nat \<Rightarrow> nat option" where
  "findMatchingLoop openToken closeToken [] depth i = None"
| "findMatchingLoop openToken closeToken (ch # rest) depth i =
     (if ch = openToken then findMatchingLoop openToken closeToken rest (depth + 1) (i + 1)
      else if ch = closeToken
      then (if depth - 1 = 0 then Some i
            else findMatchingLoop openToken closeToken rest (depth - 1) (i + 1))
      else findMatchingLoop openToken closeToken rest depth (i + 1))"

definition findMatchingIndex :: "string \<Rightarrow> nat \<Rightarrow> char \<Rightarrow> char \<Rightarrow> nat option" where
  "findMatchingIndex text startIndex openToken closeToken =
     findMatchingLoop openToken closeToken (drop startIndex text) 0 startIndex"

definition extractParenContent :: "string \<Rightarrow> string option" where
  "extractParenContent sig =
     (case indexOf sig CHR ''('' of
        None \<Rightarrow> None
      | Some openParen \<Rightarrow>
          (case findMatchingIndex sig openParen CHR ''('' CHR '')'' of
             None \<Rightarrow>
               (let tail = trim (sliceFrom sig (openParen + 1))
                in if tail = [] then None else Some tail)
           | Some closeParen \<Rightarrow>
               (let cont = trim (slice sig (openParen + 1) closeParen)
                in if cont = [] then None else Some cont)))"

text \<open>\<open>stripLeadingAnnotation\<close> is called on a text that starts with \<open>@\<close>.\<close>

definition stripLeadingAnnotation :: "string \<Rightarrow> string" where
  "stripLeadingAnnotation text =
     (let afterName = dropWhile isWordOrDot (drop 1 text);
          afterSpace = dropWhile isSpace afterName;
          index = length text - length afterSpace
      in if afterSpace \<noteq> [] \<and> hd afterSpace = CHR ''(''
         then (case findMatchingIndex text index CHR ''('' CHR '')'' of
                 None \<Rightarrow> []
               | Some closeParen \<Rightarrow> sliceFrom text (closeParen + 1))
         else sliceFrom text index)"

definition PARAM_MODIFIERS :: "string list" where
  "PARAM_MODIFIERS = [''final'']"

text \<open>
  The \<open>for\<close> loop over \<open>PARAM_MODIFIERS\<close>: the rest after the first modifier that starts the
  text and is followed by white space or the end.
\<close>

fun stripModifier :: "string list \<Rightarrow> string \<Rightarrow> string option" where
  "stripModifier [] trimmed = None"
| "stripModifier (modifier # others) trimmed =
     (let followedBySpace =
            (length trimmed = length modifier
             \<or> (length modifier < length trimmed \<and> isSpace (trimmed ! length modifier)))
      in if startsWith trimmed modifier \<and> followedBySpace
         then Some (sliceFrom trimmed (length modifier))
         else stripModifier others trimmed)"

function stripAnnotationsAndModifiers :: "string \<Rightarrow> string" where
  "stripAnnotationsAndModifiers remaining =
     (if length remaining > 0
      then (let trimmed = trimStart remaining
            in if startsWith trimmed ''@''
               then stripAnnotationsAndModifiers (stripLeadingAnnotation trimmed)
               else (case stripModifier PARAM_MODIFIERS trimmed of
                       Some rest \<Rightarrow> stripAnnotationsAndModifiers rest
                     | None \<Rightarrow> trimmed))
      else remaining)"
  by pat_completeness auto

lemma stripLeadingAnnotation_shorter:
  "text \<noteq> [] \<Longrightarrow> length (stripLeadingAnnotation text) < length text"
proof -
  assume ne: "text \<noteq> []"
  let ?afterSpace = "dropWhile isSpace (dropWhile isWordOrDot (drop 1 text))"
  have "length ?afterSpace \<le> length (dropWhile isWordOrDot (drop 1 text))"
    by (rule length_dropWhile_le)
  also have "\<dots> \<le> length (drop 1 text)" by (rule length_dropWhile_le)
  also have "\<dots> < length text" using ne by simp
  finally have short: "length ?afterSpace < length text" .
  then show ?thesis
    using ne by (auto simp: stripLeadingAnnotation_def Let_def sliceFrom_def split: option.splits)
qed

lemma stripModifier_shorter:
  "\<forall>m\<in>set ms. m \<noteq> [] \<Longrightarrow> stripModifier ms t = Some rest \<Longrightarrow> length rest < length t"
proof (induction ms)
  case Nil
  then show ?case by simp
next
  case (Cons m ms)
  show ?case
  proof (cases "stripModifier (m # ms) t = stripModifier ms t")
    case True
    then show ?thesis using Cons by simp
  next
    case False
    then have "rest = sliceFrom t (length m)" "startsWith t m"
      using Cons.prems(2) by (auto simp: Let_def split: if_splits)
    moreover have "m \<noteq> []" using Cons.prems(1) by simp
    moreover have "t \<noteq> []" using \<open>startsWith t m\<close> \<open>m \<noteq> []\<close> by (cases m; cases t) auto
    ultimately show ?thesis by (simp add: sliceFrom_def)
  qed
qed

termination stripAnnotationsAndModifiers
proof (relation "measure length")
  show "wf (measure length)" by simp
next
  fix remaining :: string and trimmed
  assume "0 < length remaining" and t: "trimmed = trimStart remaining"
    and "startsWith trimmed ''@''"
  then have "trimmed \<noteq> []" by (cases trimmed) auto
  then have "length (stripLeadingAnnotation trimmed) < length trimmed"
    by (rule stripLeadingAnnotation_shorter)
  also have "\<dots> \<le> length remaining" unfolding t trimStart_def by (rule length_dropWhile_le)
  finally show "(stripLeadingAnnotation trimmed, remaining) \<in> measure length" by simp
next
  fix remaining :: string and trimmed rest
  assume "0 < length remaining" and t: "trimmed = trimStart remaining"
    and "stripModifier PARAM_MODIFIERS trimmed = Some rest"
  then have "length rest < length trimmed"
    by (intro stripModifier_shorter[of PARAM_MODIFIERS]) (auto simp: PARAM_MODIFIERS_def)
  also have "\<dots> \<le> length remaining" unfolding t trimStart_def by (rule length_dropWhile_le)
  finally show "(rest, remaining) \<in> measure length" by simp
qed

declare stripAnnotationsAndModifiers.simps [simp del]

text \<open>\<open>splitByTopLevelComma\<close>: the loop over the characters, then the final push.\<close>

fun splitLoop :: "string \<Rightarrow> string list \<Rightarrow> string \<Rightarrow> nat \<Rightarrow> nat \<Rightarrow> string list" where
  "splitLoop [] result current angleDepth parenDepth =
     (if trim current \<noteq> [] then result @ [current] else result)"
| "splitLoop (ch # rest) result current angleDepth parenDepth =
     (if ch = CHR ''<'' then splitLoop rest result (current @ [ch]) (angleDepth + 1) parenDepth
      else if ch = CHR ''>'' then splitLoop rest result (current @ [ch]) (angleDepth - 1) parenDepth
      else if ch = CHR ''('' then splitLoop rest result (current @ [ch]) angleDepth (parenDepth + 1)
      else if ch = CHR '')'' then splitLoop rest result (current @ [ch]) angleDepth (parenDepth - 1)
      else if ch = CHR '','' \<and> angleDepth = 0 \<and> parenDepth = 0
      then splitLoop rest (result @ [current]) [] angleDepth parenDepth
      else splitLoop rest result (current @ [ch]) angleDepth parenDepth)"

definition splitByTopLevelComma :: "string \<Rightarrow> string list" where
  "splitByTopLevelComma paramsText = splitLoop paramsText [] [] 0 0"

text \<open>The body of the loop over the declarations in \<open>parseSignatureParams\<close>.\<close>

definition parseDeclaration :: "(string \<rightharpoonup> string) \<Rightarrow> string \<Rightarrow> (string \<rightharpoonup> string)" where
  "parseDeclaration result declaration =
     (let trimmed = trim declaration
      in if trimmed = [] then result
         else
           let cleaned = stripAnnotationsAndModifiers trimmed
           in case lastIndexOf cleaned CHR '' '' of
                None \<Rightarrow> result
              | Some lastSpace \<Rightarrow>
                  let type = trim (slice cleaned 0 lastSpace);
                      name = trim (sliceFrom cleaned (lastSpace + 1))
                  in if name = [] \<or> type = [] then result else result(name \<mapsto> type))"

definition parseSignatureParams :: "string \<Rightarrow> (string \<rightharpoonup> string)" where
  "parseSignatureParams sig =
     (case extractParenContent sig of
        None \<Rightarrow> Map.empty
      | Some paramsText \<Rightarrow> foldl parseDeclaration Map.empty (splitByTopLevelComma paramsText))"

text \<open>
  The tail \<open>\s+[A-Za-z_$][\w$]*\s*\(\<close> of the two signature patterns, matched at the start
  of the text: white space, an identifier taken as long as it goes, white space, \<open>(\<close>.
\<close>

definition nameParenFollows :: "string \<Rightarrow> bool" where
  "nameParenFollows s \<longleftrightarrow>
     s \<noteq> [] \<and> isSpace (hd s) \<and>
     (let s1 = dropWhile isSpace s
      in s1 \<noteq> [] \<and> isIdentStart (hd s1) \<and>
         (let s2 = dropWhile isSpace (dropWhile isIdentPart (tl s1))
          in s2 \<noteq> [] \<and> hd s2 = CHR ''(''))"

text \<open>The class \<open>[\w$<>\[\].?,\s]\<close>.\<close>

definition isTypeChar :: "char \<Rightarrow> bool" where
  "isTypeChar c \<longleftrightarrow>
     isWord c \<or> c = CHR ''$'' \<or> c = CHR ''<'' \<or> c = CHR ''>'' \<or> c = CHR ''['' \<or> c = CHR '']''
     \<or> c = CHR ''.'' \<or> c = CHR ''?'' \<or> c = CHR '','' \<or> isSpace c"

text \<open>
  \<open>/^([A-Za-z_$][\w$<>\[\].?,\s]*?)\s+[A-Za-z_$][\w$]*\s*\(/\<close>: the lazy group grows one
  character at a time until the tail matches; the result is the group.
\<close>

fun returnTypeScan :: "string \<Rightarrow> string \<Rightarrow> string option" where
  "returnTypeScan acc [] = None"
| "returnTypeScan acc (c # cs) =
     (if nameParenFollows (c # cs) then Some acc
      else if isTypeChar c then returnTypeScan (acc @ [c]) cs
      else None)"

definition matchReturnType :: "string \<Rightarrow> string option" where
  "matchReturnType s =
     (case s of
        [] \<Rightarrow> None
      | c # cs \<Rightarrow> if isIdentStart c then returnTypeScan [c] cs else None)"

text \<open>
  \<open>JAVA_METHOD_MODIFIER_PREFIX\<close>: leading white space, then any number of modifier keywords,
  each followed by white space. \<open>matchModifier\<close> is one round of the repetition.
\<close>

definition JAVA_METHOD_MODIFIERS :: "string list" where
  "JAVA_METHOD_MODIFIERS =
     [''public'', ''private'', ''protected'', ''static'', ''final'', ''abstract'',
      ''synchronized'', ''default'', ''native'', ''strictfp'']"

fun matchModifier :: "string list \<Rightarrow> string \<Rightarrow> string option" where
  "matchModifier [] s = None"
| "matchModifier (kw # kws) s =
     (if startsWith s kw \<and> drop (length kw) s \<noteq> [] \<and> isSpace (hd (drop (length kw) s))
      then Some (dropWhile isSpace (drop (length kw) s))
      else matchModifier kws s)"

function stripModifierGroups :: "string \<Rightarrow> string" where
  "stripModifierGroups s =
     (case matchModifier JAVA_METHOD_MODIFIERS s of
        Some rest \<Rightarrow> stripModifierGroups rest
      | None \<Rightarrow> s)"
  by pat_completeness auto

lemma matchModifier_shorter:
  "\<forall>m\<in>set ms. m \<noteq> [] \<Longrightarrow> matchModifier ms s = Some rest \<Longrightarrow> length rest < length s"
proof (induction ms)
  case Nil
  then show ?case by simp
next
  case (Cons m ms)
  show ?case
  proof (cases "matchModifier (m # ms) s = matchModifier ms s")
    case True
    then show ?thesis using Cons by simp
  next
    case False
    then have r: "rest = dropWhile isSpace (drop (length m) s)" and d: "drop (length m) s \<noteq> []"
      using Cons.prems(2) by (auto split: if_splits)
    have "m \<noteq> []" using Cons.prems(1) by simp
    have "length rest \<le> length (drop (length m) s)" unfolding r by (rule length_dropWhile_le)
    also have "\<dots> < length s" using d \<open>m \<noteq> []\<close> by (cases s) auto
    finally show ?thesis .
  qed
qed

termination stripModifierGroups
proof (relation "measure length")
  show "wf (measure length)" by simp
next
  fix s rest
  assume "matchModifier JAVA_METHOD_MODIFIERS s = Some rest"
  then have "length rest < length s"
    by (intro matchModifier_shorter[of JAVA_METHOD_MODIFIERS]) (auto simp: JAVA_METHOD_MODIFIERS_def)
  then show "(rest, s) \<in> measure length" by simp
qed

declare stripModifierGroups.simps [simp del]

definition stripModifierPrefix :: "string \<Rightarrow> string" where
  "stripModifierPrefix s = stripModifierGroups (dropWhile isSpace s)"

definition removeMethodGenericDecl :: "string \<Rightarrow> string" where
  "removeMethodGenericDecl sig =
     (case (indexOf sig CHR ''<'', indexOf sig CHR ''('') of
        (Some openAngle, Some openParen) \<Rightarrow>
          if openAngle > openParen then sig
          else (case findMatchingIndex sig openAngle CHR ''<'' CHR ''>'' of
                  None \<Rightarrow> sig
                | Some closeAngle \<Rightarrow>
                    let afterGeneric = trimStart (sliceFrom sig (closeAngle + 1))
                    in if matchReturnType afterGeneric \<noteq> None
                       then slice sig 0 openAngle @ afterGeneric
                       else sig)
      | _ \<Rightarrow> sig)"

definition parseReturnType :: "string \<Rightarrow> string" where
  "parseReturnType sig =
     (let cleanSignature = trim (takeWhile (\<lambda>c. c \<noteq> CHR ''{'') sig);
          withoutGenericDecl = removeMethodGenericDecl cleanSignature;
          withoutModifiers = stripModifierPrefix withoutGenericDecl
      in case matchReturnType withoutModifiers of
           Some g \<Rightarrow> if g \<noteq> [] then trim g else ''void''
         | None \<Rightarrow> ''void'')"

text \<open>
  The first group of the pattern of \<open>parseParamTag\<close>, \<open><\s*[A-Za-z_$][\w$]*\s*>\<close> or
  \<open>[A-Za-z_$][\w$]*\<close>, with the text that follows it.
\<close>

definition matchParamName :: "string \<Rightarrow> (string \<times> string) option" where
  "matchParamName cont =
     (case cont of
        [] \<Rightarrow> None
      | c # t \<Rightarrow>
          if c = CHR ''<''
          then (case dropWhile isSpace t of
                  [] \<Rightarrow> None
                | i # u \<Rightarrow>
                    if isIdentStart i
                    then (case dropWhile isSpace (dropWhile isIdentPart u) of
                            [] \<Rightarrow> None
                          | g # rest \<Rightarrow>
                              if g = CHR ''>''
                              then Some (take (length cont - length rest) cont, rest)
                              else None)
                    else None)
          else if isIdentStart c
          then Some (c # takeWhile isIdentPart t, dropWhile isIdentPart t)
          else None)"

definition parseParamTag :: "string \<Rightarrow> (string \<rightharpoonup> string) \<Rightarrow> paramTag option" where
  "parseParamTag cont paramTypes =
     (case matchParamName cont of
        None \<Rightarrow> None
      | Some (g1, rest) \<Rightarrow>
          let rawName = filter (\<lambda>c. \<not> isSpace c) g1;
              descr = trim (dropWhile isSpace rest);
              isTypeParameter = (startsWith rawName ''<'' \<and> endsWith rawName ''>'');
              type = (if isTypeParameter then ''type-parameter''
                      else (case paramTypes rawName of Some t \<Rightarrow> t | None \<Rightarrow> ''unknown''))
          in Some \<lparr>paramName = rawName, paramType = type, paramDescription = descr\<rparr>)"

text \<open>\<open>/^([\w.]+)\s*(.*)$/s\<close>.\<close>

definition parseThrowsTag :: "string \<Rightarrow> throwsTag option" where
  "parseThrowsTag cont =
     (let g1 = takeWhile isWordOrDot cont
      in if g1 = [] then None
         else Some \<lparr>throwsType = g1,
                    throwsDescription = trim (dropWhile isSpace (dropWhile isWordOrDot cont))\<rparr>)"

definition createEmptyTagTable :: tagTable where
  "createEmptyTagTable =
     \<lparr>params = [], returns = None, throws = [], since = None, author = None,
      deprecated = None, see = [], doc = None, example = None\<rparr>"

text \<open>\<open>content || null\<close>.\<close>

definition orNull :: "string \<Rightarrow> string option" where
  "orNull s = (if s = [] then None else Some s)"

text \<open>The body of the loop over the blocks in \<open>parseTagTable\<close>, on the table built so far.\<close>

definition applyBlock ::
  "(string \<rightharpoonup> string) \<Rightarrow> string \<Rightarrow> tagTable \<Rightarrow> parsedTagBlock \<Rightarrow> tagTable" where
  "applyBlock paramTypes retType t block =
     (let cont = trim (content block)
      in if tag block = ''param''
         then (case parseParamTag cont paramTypes of
                 Some parsed \<Rightarrow> t\<lparr>params := params t @ [parsed]\<rparr>
               | None \<Rightarrow> t)
         else if tag block = ''return'' \<or> tag block = ''returns''
         then (if retType \<noteq> ''void''
               then t\<lparr>returns := Some \<lparr>returnType = retType, returnDescription = cont\<rparr>\<rparr>
               else t)
         else if tag block = ''throws'' \<or> tag block = ''exception''
         then (case parseThrowsTag cont of
                 Some parsed \<Rightarrow> t\<lparr>throws := throws t @ [parsed]\<rparr>
               | None \<Rightarrow> t)
         else if tag block = ''since'' then t\<lparr>since := orNull cont\<rparr>
         else if tag block = ''author'' then t\<lparr>author := orNull cont\<rparr>
         else if tag block = ''deprecated'' then t\<lparr>deprecated := orNull cont\<rparr>
         else if tag block = ''see'' then (if cont \<noteq> [] then t\<lparr>see := see t @ [cont]\<rparr> else t)
         else if tag block = ''doc'' then t\<lparr>doc := orNull cont\<rparr>
         else if tag block = ''example'' then t\<lparr>example := orNull cont\<rparr>
         else t)"

definition parseTagTable :: "string \<Rightarrow> string \<Rightarrow> tagTable" where
  "parseTagTable rawTags sig =
     (if trim rawTags = [] then createEmptyTagTable
      else
        let bs = tokenizeTagBlocks rawTags
        in if length bs = 0 then createEmptyTagTable
           else
             let paramTypes = parseSignatureParams sig;
                 retType = parseReturnType sig
             in foldl (applyBlock paramTypes retType) createEmptyTagTable bs)"

text \<open>The signatures and raw tag texts of the concrete checks.\<close>

definition mergeSignature :: string where
  "mergeSignature = ''public Map<String, List<Integer>> merge(@NotNull final String a, int[] b)''"

definition constructorSignature :: string where
  "constructorSignature = ''public Foo()''"

section \<open>Comment and signature location (parser/JavaDocParser)\<close>

text \<open>\<open>raw.replace(/\r\n/g, "\n")\<close>.\<close>

fun replaceCRLF :: "string \<Rightarrow> string" where
  "replaceCRLF (c # d # rest) =
     (if c = CHR 0x0D \<and> d = CHR 0x0A then CHR 0x0A # replaceCRLF rest
      else c # replaceCRLF (d # rest))"
| "replaceCRLF s = s"

text \<open>\<open>.replace(/\/\*\*|\*\//g, "")\<close>: every \<open>/**\<close> and every \<open>*/\<close> is removed, left to right.\<close>

fun removeDelimiters :: "string \<Rightarrow> string" where
  "removeDelimiters (a # b # c # rest) =
     (if a = CHR ''/'' \<and> b = CHR ''*'' \<and> c = CHR ''*'' then removeDelimiters rest
      else if a = CHR ''*'' \<and> b = CHR ''/'' then removeDelimiters (c # rest)
      else a # removeDelimiters (b # c # rest))"
| "removeDelimiters [a, b] = (if a = CHR ''*'' \<and> b = CHR ''/'' then [] else [a, b])"
| "removeDelimiters s = s"

text \<open>
  \<open>.replace(/\n{3,}/g, "\n\n")\<close>: a run of three or more line feeds becomes two. The counter
  is the length of the run of line feeds read so far.
\<close>

definition emitNewlines :: "nat \<Rightarrow> string" where
  "emitNewlines n = (if n \<ge> 3 then [CHR 0x0A, CHR 0x0A] else replicate n (CHR 0x0A))"

fun collapseNewlines :: "nat \<Rightarrow> string \<Rightarrow> string" where
  "collapseNewlines n [] = emitNewlines n"
| "collapseNewlines n (c # cs) =
     (if c = CHR 0x0A then collapseNewlines (n + 1) cs
      else emitNewlines n @ c # collapseNewlines 0 cs)"

text \<open>
  \<open>cleanComment\<close>. Its per-line replacement \<open>/^\s*\*\s?/\<close> is the one of
  \<open>normalizeJavadocLine\<close>.
\<close>

definition cleanComment :: "string \<Rightarrow> string" where
  "cleanComment raw =
     trim (collapseNewlines 0
       (joinWith [CHR 0x0A]
          (map normalizeJavadocLine
             (splitChar CHR 0x0A (removeDelimiters (replaceCRLF raw))))))"

text \<open>\<open>cleaned.search(/@\w+/)\<close>; \<open>None\<close> stands for \<open>-1\<close>.\<close>

fun searchTag :: "string \<Rightarrow> nat option" where
  "searchTag (c # d # rest) =
     (if c = CHR ''@'' \<and> isWord d then Some 0 else map_option Suc (searchTag (d # rest)))"
| "searchTag s = None"

record javadoc =
  jdDescription :: string
  jdTags :: tagTable

definition parseJavadoc :: "string \<Rightarrow> string \<Rightarrow> javadoc" where
  "parseJavadoc rawComment sig =
     (let cleaned = cleanComment rawComment;
          tagIndex = searchTag cleaned;
          descr = (case tagIndex of None \<Rightarrow> cleaned | Some i \<Rightarrow> trim (slice cleaned 0 i));
          rawTags = (case tagIndex of None \<Rightarrow> [] | Some i \<Rightarrow> sliceFrom cleaned i)
      in \<lparr>jdDescription = descr, jdTags = parseTagTable rawTags sig\<rparr>)"

text \<open>\<open>annotationPattern = /^\s*@[\w.]+/\<close>, as a test.\<close>

definition annotationPattern :: "string \<Rightarrow> bool" where
  "annotationPattern l \<longleftrightarrow>
     (case dropWhile isSpace l of
        c # d # rest \<Rightarrow> c = CHR ''@'' \<and> isWordOrDot d
      | _ \<Rightarrow> False)"

definition countChar :: "char \<Rightarrow> string \<Rightarrow> int" where
  "countChar ch l = int (length (filter (\<lambda>c. c = ch) l))"

text \<open>
  \<open>onlyBlankOrAnnotations\<close>. The two nested loops of the source walk the lines once; here
  \<open>parenDepth\<close> is positive exactly while the inner loop, which skips the lines of a
  multi-line annotation argument list, is running.
\<close>

fun onlyBlankLoop :: "int \<Rightarrow> string list \<Rightarrow> bool" where
  "onlyBlankLoop parenDepth [] = True"
| "onlyBlankLoop parenDepth (l # ls) =
     (if parenDepth > 0
      then onlyBlankLoop (parenDepth + (countChar CHR ''('' l - countChar CHR '')'' l)) ls
      else if trim l = [] then onlyBlankLoop 0 ls
      else if \<not> annotationPattern (trim l) then False
      else onlyBlankLoop (countChar CHR ''('' l - countChar CHR '')'' l) ls)"

definition onlyBlankOrAnnotations :: "string list \<Rightarrow> bool" where
  "onlyBlankOrAnnotations ls = onlyBlankLoop 0 ls"

text \<open>
  The inner loop of \<open>extractComment\<close>, from \<open>startLine = endLine\<close> down to 0; the counter is
  \<open>startLine + 1\<close>. \<open>None\<close>: the loop ended, by \<open>break\<close> or at the top of the file.
\<close>

fun findCommentStart :: "string list \<Rightarrow> nat \<Rightarrow> nat \<Rightarrow> string option" where
  "findCommentStart ls endLn 0 = None"
| "findCommentStart ls endLn (Suc startLn) =
     (let l = lineAt ls (int startLn)
      in if includesStr l ''/**''
         then Some (joinWith [CHR 0x0A] (slice ls startLn (endLn + 1)))
         else if startLn \<noteq> endLn \<and> includesStr l ''*/'' then None
         else findCommentStart ls endLn startLn)"

text \<open>The outer loop, from \<open>endLn = targetLine - 1\<close> down to 0; the counter is \<open>endLn + 1\<close>.\<close>

fun extractCommentLoop :: "string list \<Rightarrow> int \<Rightarrow> nat \<Rightarrow> string" where
  "extractCommentLoop ls targetLine 0 = []"
| "extractCommentLoop ls targetLine (Suc endLn) =
     (let trimmed = trim (lineAt ls (int endLn))
      in if trimmed = [] then extractCommentLoop ls targetLine endLn
         else if \<not> endsWith trimmed ''*/'' then extractCommentLoop ls targetLine endLn
         else if \<not> onlyBlankOrAnnotations (slice ls (endLn + 1) (nat targetLine))
         then extractCommentLoop ls targetLine endLn
         else (case findCommentStart ls endLn (Suc endLn) of
                 Some found \<Rightarrow> found
               | None \<Rightarrow> extractCommentLoop ls targetLine endLn))"

definition extractComment :: "string \<Rightarrow> int \<Rightarrow> string" where
  "extractComment text targetLine =
     extractCommentLoop (splitChar CHR 0x0A text) targetLine (nat targetLine)"

definition extractMemberComment :: "string \<Rightarrow> int \<Rightarrow> string \<Rightarrow> string" where
  "extractMemberComment text targetLine classComment =
     (let raw = extractComment text targetLine
      in if length raw = 0 then []
         else if length classComment > 0 \<and> raw = classComment then []
         else raw)"

text \<open>\<open>signature.replace(/\s+/g, " ")\<close>: the flag says that the previous character was white space.\<close>

fun collapseSpaces :: "bool \<Rightarrow> string \<Rightarrow> string" where
  "collapseSpaces inRun [] = []"
| "collapseSpaces inRun (c # cs) =
     (if isSpace c
      then (if inRun then collapseSpaces True cs else CHR '' '' # collapseSpaces True cs)
      else c # collapseSpaces False cs)"

definition normalizeSpaces :: "string \<Rightarrow> string" where
  "normalizeSpaces s = trim (collapseSpaces False s)"

text \<open>
  \<open>extractFullSignature\<close>. The loop over the characters of one line either returns the
  finished signature (\<open>Inr\<close>) or hands on the signature so far, the depth and the flag.
\<close>

fun signatureChars :: "string \<Rightarrow> string \<Rightarrow> int \<Rightarrow> bool \<Rightarrow> (string \<times> int \<times> bool) + string" where
  "signatureChars [] sg parenDepth foundOpenParen = Inl (sg, parenDepth, foundOpenParen)"
| "signatureChars (ch # rest) sg parenDepth foundOpenParen =
     (if ch = CHR ''('' then signatureChars rest (sg @ [ch]) (parenDepth + 1) True
      else if ch = CHR '')''
      then (if foundOpenParen \<and> parenDepth - 1 = 0 then Inr (normalizeSpaces (sg @ [ch]))
            else signatureChars rest (sg @ [ch]) (parenDepth - 1) foundOpenParen)
      else signatureChars rest (sg @ [ch]) parenDepth foundOpenParen)"

fun signatureLines :: "string list \<Rightarrow> string \<Rightarrow> int \<Rightarrow> bool \<Rightarrow> string" where
  "signatureLines [] sg parenDepth foundOpenParen = normalizeSpaces sg"
| "signatureLines (l # ls) sg parenDepth foundOpenParen =
     (case signatureChars l sg parenDepth foundOpenParen of
        Inr finished \<Rightarrow> finished
      | Inl (sg', parenDepth', foundOpenParen') \<Rightarrow>
          signatureLines ls (sg' @ '' '') parenDepth' foundOpenParen')"

definition MAX_SIGNATURE_LINES :: int where
  "MAX_SIGNATURE_LINES = 15"

definition extractFullSignature :: "string list \<Rightarrow> int \<Rightarrow> string" where
  "extractFullSignature ls startLn =
     (let maxLine = min (int (length ls)) (startLn + MAX_SIGNATURE_LINES)
      in signatureLines (map (lineAt ls) [startLn..maxLine - 1]) [] 0 False)"

definition extractAccessModifierFromLine :: "string \<Rightarrow> accessModifier" where
  "extractAccessModifierFromLine l =
     (if includesStr l ''public '' then Public
      else if includesStr l ''protected '' then Protected
      else if includesStr l ''private '' then Private
      else Default)"

text \<open>
  \<open>line.replace(/\{.*$/, "")\<close>: the text is cut at the first \<open>{\<close> after which no line
  terminator follows, since \<open>.\<close> must reach the end of the text.
\<close>

fun removeBody :: "string \<Rightarrow> string" where
  "removeBody [] = []"
| "removeBody (c # cs) =
     (if c = CHR ''{'' \<and> \<not> (\<exists>x\<in>set cs. isLineTerminator x) then [] else c # removeBody cs)"

definition extractSignatureFromLine :: "string \<Rightarrow> string" where
  "extractSignatureFromLine l =
     (let withoutBody = trim (removeBody l) in if withoutBody \<noteq> [] then withoutBody else l)"

text \<open>\<open>s.split(/\s+/)\<close>: the flag says that the previous character was white space.\<close>

fun splitSpaces :: "bool \<Rightarrow> string \<Rightarrow> string \<Rightarrow> string list" where
  "splitSpaces inRun cur [] = [cur]"
| "splitSpaces inRun cur (c # cs) =
     (if isSpace c
      then (if inRun then splitSpaces True cur cs else cur # splitSpaces True [] cs)
      else splitSpaces False (cur @ [c]) cs)"

definition extractFieldType :: "string \<Rightarrow> string" where
  "extractFieldType l =
     (let withoutAssign = takeWhile (\<lambda>c. c \<noteq> CHR ''='') l;
          withoutSemicolon =
            trim (if withoutAssign \<noteq> [] \<and> last withoutAssign = CHR '';''
                  then butlast withoutAssign else withoutAssign);
          parts = splitSpaces False [] withoutSemicolon
      in if length parts \<ge> 2 then parts ! (length parts - 2) else ''unknown'')"

text \<open>
  \<open>extractEnumArguments\<close>. Its depth-counting loop is the loop of \<open>findMatchingIndex\<close>; the
  fallback \<open>.replace(/[,;]\s*$/, "")\<close> removes a comma or semicolon that only white space
  follows.
\<close>

definition stripTrailingSeparator :: "string \<Rightarrow> string" where
  "stripTrailingSeparator s =
     (let t = trimEnd s
      in if t \<noteq> [] \<and> (last t = CHR '','' \<or> last t = CHR '';'') then butlast t else s)"

definition extractEnumArguments :: "string \<Rightarrow> string" where
  "extractEnumArguments lineText =
     (case indexOf lineText CHR ''('' of
        None \<Rightarrow> []
      | Some openIndex \<Rightarrow>
          (case findMatchingIndex lineText openIndex CHR ''('' CHR '')'' of
             Some i \<Rightarrow> slice lineText openIndex (i + 1)
           | None \<Rightarrow> stripTrailingSeparator (sliceFrom lineText openIndex)))"

section \<open>Member documents (JavaDocParser.parseMethod, parseField, parseEnumConstant)\<close>

record fieldDoc =
  fieldName :: string
  fieldType :: string
  fieldSignature :: string
  fieldStartLine :: int
  fieldHasComment :: bool
  fieldDescription :: string
  isConstant :: bool
  fieldAccessModifier :: accessModifier
  fieldBelongsTo :: string

record enumConstantDoc =
  enumName :: string
  enumStartLine :: int
  enumHasComment :: bool
  enumDescription :: string
  enumArguments :: string
  enumBelongsTo :: string

definition EMPTY_TAG_TABLE :: tagTable where
  "EMPTY_TAG_TABLE =
     \<lparr>params = [], returns = None, throws = [], since = None, author = None,
      deprecated = None, see = [], doc = None, example = None\<rparr>"

text \<open>The exception of a \<open>try\<close> block: reading a property of \<open>undefined\<close>.\<close>

datatype jsError = TypeError

text \<open>\<open>symbol.selectionRange?.start.line ?? symbol.range.start.line\<close> and \<open>symbol.range.end.line\<close>.\<close>

definition symbolStartLine :: "documentSymbol \<Rightarrow> jsError + int" where
  "symbolStartLine smb =
     (case selectionRange smb of
        Some r \<Rightarrow> Inr (line (rangeStart r))
      | None \<Rightarrow>
          (case symbolRange smb of
             Some r \<Rightarrow> Inr (line (rangeStart r))
           | None \<Rightarrow> Inl TypeError))"

definition symbolEndLine :: "documentSymbol \<Rightarrow> jsError + int" where
  "symbolEndLine smb =
     (case symbolRange smb of
        Some r \<Rightarrow> Inr (line (rangeEnd r))
      | None \<Rightarrow> Inl TypeError)"

text \<open>The decimal form of an integer, as a template literal prints it.\<close>

fun showNat :: "nat \<Rightarrow> string" where
  "showNat n = (if n < 10 then [char_of (48 + n)] else showNat (n div 10) @ [char_of (48 + n mod 10)])"

declare showNat.simps [simp del]

definition showInt :: "int \<Rightarrow> string" where
  "showInt i = (if i < 0 then CHR ''-'' # showNat (nat (- i)) else showNat (nat i))"

text \<open>The body of the \<open>try\<close> block of \<open>parseMethod\<close>.\<close>

definition parseMethodBody :: "string \<Rightarrow> flattenedSymbol \<Rightarrow> string \<Rightarrow> jsError + methodDoc" where
  "parseMethodBody text flattened classComment =
     (let smb = symbol flattened;
          ls = splitChar CHR 0x0A text
      in case symbolStartLine smb of
           Inl e \<Rightarrow> Inl e
         | Inr startLn \<Rightarrow>
             (case symbolEndLine smb of
                Inl e \<Rightarrow> Inl e
              | Inr endLn \<Rightarrow>
                  let fullSignature = extractFullSignature ls startLn;
                      rawComment = extractMemberComment text startLn classComment;
                      hasCmt = (length rawComment > 0);
                      jd = (if hasCmt then parseJavadoc rawComment fullSignature
                            else \<lparr>jdDescription = [], jdTags = EMPTY_TAG_TABLE\<rparr>);
                      displaySignature =
                        (if detail smb \<noteq> [] then detail smb
                         else extractSignatureFromLine (lineAt ls startLn))
                  in Inr \<lparr>methodId = name smb @ ''_'' @ showInt startLn,
                          methodKind = (if isConstructorSymbol smb then KConstructor else KMethod),
                          methodName = name smb,
                          signature = displaySignature,
                          startLine = startLn,
                          endLine = endLn,
                          hasComment = hasCmt,
                          description = jdDescription jd,
                          tags = jdTags jd,
                          belongsTo = owner flattened,
                          accessModifier = extractAccessModifierFromLine fullSignature\<rparr>))"

text \<open>
  \<open>parseMethod\<close>, \<open>parseField\<close> and \<open>parseEnumConstant\<close> return what they write to
  \<open>console.error\<close> together with their result; \<open>None\<close> stands for \<open>null\<close>.
\<close>

definition parseMethod :: "string \<Rightarrow> flattenedSymbol \<Rightarrow> string \<Rightarrow> string list \<times> methodDoc option" where
  "parseMethod text flattened classComment =
     (case parseMethodBody text flattened classComment of
        Inr d \<Rightarrow> ([], Some d)
      | Inl e \<Rightarrow> ([''[JavaDocParser] Failed to parse method: '' @ name (symbol flattened)], None))"

definition parseFieldBody :: "string \<Rightarrow> flattenedSymbol \<Rightarrow> string \<Rightarrow> jsError + fieldDoc" where
  "parseFieldBody text flattened classComment =
     (let smb = symbol flattened;
          ls = splitChar CHR 0x0A text
      in case symbolStartLine smb of
           Inl e \<Rightarrow> Inl e
         | Inr startLn \<Rightarrow>
             let lineText = trim (lineAt ls startLn);
                 rawComment = extractMemberComment text startLn classComment;
                 hasCmt = (length rawComment > 0)
             in Inr \<lparr>fieldName = name smb,
                     fieldType = (if detail smb \<noteq> [] then detail smb else extractFieldType lineText),
                     fieldSignature = lineText,
                     fieldStartLine = startLn,
                     fieldHasComment = hasCmt,
                     fieldDescription = (if hasCmt then cleanComment rawComment else []),
                     isConstant = (includesStr lineText ''static'' \<and> includesStr lineText ''final''),
                     fieldAccessModifier = extractAccessModifierFromLine lineText,
                     fieldBelongsTo = owner flattened\<rparr>)"

definition parseField :: "string \<Rightarrow> flattenedSymbol \<Rightarrow> string \<Rightarrow> string list \<times> fieldDoc option" where
  "parseField text flattened classComment =
     (case parseFieldBody text flattened classComment of
        Inr d \<Rightarrow> ([], Some d)
      | Inl e \<Rightarrow> ([''[JavaDocParser] Failed to parse field: '' @ name (symbol flattened)], None))"

definition parseEnumConstantBody ::
  "string \<Rightarrow> flattenedSymbol \<Rightarrow> string \<Rightarrow> jsError + enumConstantDoc" where
  "parseEnumConstantBody text flattened classComment =
     (let smb = symbol flattened;
          ls = splitChar CHR 0x0A text
      in case symbolStartLine smb of
           Inl e \<Rightarrow> Inl e
         | Inr startLn \<Rightarrow>
             let lineText = trim (lineAt ls startLn);
                 rawComment = extractMemberComment text startLn classComment;
                 hasCmt = (length rawComment > 0)
             in Inr \<lparr>enumName = name smb,
                     enumStartLine = startLn,
                     enumHasComment = hasCmt,
                     enumDescription = (if hasCmt then cleanComment rawComment else []),
                     enumArguments = extractEnumArguments lineText,
                     enumBelongsTo = owner flattened\<rparr>)"

definition parseEnumConstant ::
  "string \<Rightarrow> flattenedSymbol \<Rightarrow> string \<Rightarrow> string list \<times> enumConstantDoc option" where
  "parseEnumConstant text flattened classComment =
     (case parseEnumConstantBody text flattened classComment of
        Inr d \<Rightarrow> ([], Some d)
      | Inl e \<Rightarrow>
          ([''[JavaDocParser] Failed to parse enum constant: '' @ name (symbol flattened)], None))"

section \<open>The member lists of \<open>parse\<close>\<close>

text \<open>
  The part of \<open>parse\<close> between flattening and the git lookup: each of the three lists is
  \<open>flattenedSymbols.filter(...).map(...).filter(x => x !== null).sort(...)\<close>, methods first,
  then fields, then enum constants. \<open>Array.prototype.sort\<close> is stable, and so is
  \<^const>\<open>sort_key\<close>. The list \<open>fields\<close> of the source is \<open>fieldDocs\<close> here; \<open>errorLog\<close>
  collects what was written to \<open>console.error\<close>.
\<close>

definition notNull :: "'a option list \<Rightarrow> 'a list" where
  "notNull xs = List.map_filter (\<lambda>x. x) xs"

record memberLists =
  methods :: "methodDoc list"
  fieldDocs :: "fieldDoc list"
  enumConstants :: "enumConstantDoc list"
  errorLog :: "string list"

definition parseMembers :: "string \<Rightarrow> flattenedSymbol list \<Rightarrow> string \<Rightarrow> memberLists" where
  "parseMembers text flattenedSymbols classComment =
     (let ms = map (\<lambda>fs. parseMethod text fs classComment)
                 (filter (\<lambda>fs. isMethodSymbol (symbol fs)) flattenedSymbols);
          fds = map (\<lambda>fs. parseField text fs classComment)
                  (filter (\<lambda>fs. isFieldSymbol (symbol fs)) flattenedSymbols);
          es = map (\<lambda>fs. parseEnumConstant text fs classComment)
                 (filter (\<lambda>fs. isEnumMemberSymbol (symbol fs)) flattenedSymbols)
      in \<lparr>methods = sort_key startLine (notNull (map snd ms)),
          fieldDocs = sort_key fieldStartLine (notNull (map snd fds)),
          enumConstants = sort_key enumStartLine (notNull (map snd es)),
          errorLog = concat (map fst ms) @ concat (map fst fds) @ concat (map fst es)\<rparr>)"

text \<open>
  For the statements about \<open>parseMembers\<close>: the results of the extractions that succeed, and
  the symbols whose extraction throws, both in list order.
\<close>

definition successes :: "('a \<Rightarrow> jsError + 'b) \<Rightarrow> 'a list \<Rightarrow> 'b list" where
  "successes body xs = List.map_filter (\<lambda>x. case body x of Inr d \<Rightarrow> Some d | Inl e \<Rightarrow> None) xs"

definition failures :: "('a \<Rightarrow> jsError + 'b) \<Rightarrow> 'a list \<Rightarrow> 'a list" where
  "failures body xs = filter (\<lambda>x. isl (body x)) xs"

text \<open>Texts and symbols of the concrete checks.\<close>

definition proseTagComment :: string where
  "proseTagComment =
     ''/**'' @ [CHR 0x0A] @
     '' * Computes @return value. '' @ [CHR 0x0A] @
     '' * @param x the input'' @ [CHR 0x0A] @
     '' */''"

definition proseTagContent :: string where
  "proseTagContent = ''Computes @return value. '' @ [CHR 0x0A] @ ''@param x the input''"

definition lombokText :: string where
  "lombokText =
     ''/** Service. */'' @ [CHR 0x0A] @
     ''@Slf4j'' @ [CHR 0x0A] @
     ''public class A {'' @ [CHR 0x0A] @
     ''  /** Count. */'' @ [CHR 0x0A] @
     ''  private int n;'' @ [CHR 0x0A] @
     ''  int get() { return n; }'' @ [CHR 0x0A] @
     ''}''"

definition lineRangeOf :: "int \<Rightarrow> int \<Rightarrow> lineRange" where
  "lineRangeOf a b =
     \<lparr>rangeStart = \<lparr>line = a, character = 0\<rparr>, rangeEnd = \<lparr>line = b, character = 0\<rparr>\<rparr>"

definition logField :: flattenedSymbol where
  "logField =
     \<lparr>symbol = DocumentSymbol ''log'' [] SkField (Some (lineRangeOf 2 2)) (Some (lineRangeOf 2 2)) [],
      owner = ''A''\<rparr>"

definition getMethod :: flattenedSymbol where
  "getMethod =
     \<lparr>symbol = DocumentSymbol ''get'' [] SkMethod (Some (lineRangeOf 5 5)) (Some (lineRangeOf 5 5)) [],
      owner = ''A''\<rparr>"

definition brokenMethod :: flattenedSymbol where
  "brokenMethod =
     \<lparr>symbol = DocumentSymbol ''broken'' [] SkMethod None (Some (lineRangeOf 4 4)) [],
      owner = ''A''\<rparr>"

definition getDoc :: methodDoc where
  "getDoc =
     \<lparr>methodId = ''get_5'', methodKind = KMethod, methodName = ''get'', signature = ''int get()'',
      startLine = 5, endLine = 5, hasComment = False, description = [],
      tags = EMPTY_TAG_TABLE, belongsTo = ''A'', accessModifier = Default\<rparr>"

section \<open>Rejoining tag blocks\<close>





text \<open>A text is trimmed when it neither starts nor ends with white space.\<close>

definition trimmed :: "string \<Rightarrow> bool" where
  "trimmed s \<longleftrightarrow> s = [] \<or> (\<not> isSpace (hd s) \<and> \<not> isSpace (last s))"

text \<open>
  Lines as the tokenizer stores them: \<open>plainLine\<close> for the seed of a block, \<open>contLine\<close> for a
  continuation line that re-tokenizing leaves alone.
\<close>

definition plainLine :: "string \<Rightarrow> bool" where
  "plainLine l \<longleftrightarrow> trimmed l \<and> CHR 0x0A \<notin> set l \<and> CHR 0x0D \<notin> set l"

definition contLine :: "string \<Rightarrow> bool" where
  "contLine l \<longleftrightarrow> plainLine l \<and> matchTagLine l = None \<and> normalizeJavadocLine l = l"










section \<open>Request coalescing (SymbolResolver.resolveSymbols)\<close>

text \<open>
  JavaScript runs every synchronous stretch of code to completion, so the module's state
  changes in steps: a call of \<open>resolveSymbols\<close> up to its \<open>return\<close>, the arrival of the
  provider's answer (after which \<open>fetchAndNormalizeSymbols\<close> resolves with the normalised
  symbols), the \<open>then\<close> callback, the \<open>finally\<close> callback, and the two invalidation functions.
  A request is the promise built by one call that found neither a cache entry nor a marker;
  it is identified by its position in the list of all requests issued so far, and each
  request stands for exactly one external call.
\<close>

datatype stage =
    Pending
  | Fetched "documentSymbol list"
  | Stored "documentSymbol list"
  | Settled "documentSymbol list"

record request =
  requestKey :: string
  cacheKey :: string
  requestVersion :: "int option"
  stage :: stage

record resolverState =
  cache :: symbolCache
  inFlightRequests :: "(string, nat) jsMap"
  requests :: "request list"

definition initialState :: resolverState where
  "initialState = \<lparr>cache = [], inFlightRequests = [], requests = []\<rparr>"

text \<open>The template literal \<open>`${cacheKey}#${version ?? "untracked"}`\<close>.\<close>

definition requestKeyOf :: "string \<Rightarrow> int option \<Rightarrow> string" where
  "requestKeyOf uri ver =
     uri @ ''#'' @ (case ver of Some v \<Rightarrow> showInt v | None \<Rightarrow> ''untracked'')"

datatype resolveResult = Cached "documentSymbol list" | Awaits nat

text \<open>
  \<open>resolveSymbols\<close>, given what \<open>getOpenDocumentVersion\<close> answers for the document. It returns
  the cached symbols, or the request whose result the caller awaits.
\<close>

definition resolveSymbols ::
  "resolverState \<Rightarrow> string \<Rightarrow> int option \<Rightarrow> resolverState \<times> resolveResult" where
  "resolveSymbols s uri ver =
     (let (cached, cache') =
            (case ver of
               Some v \<Rightarrow> getCachedSymbols (cache s) uri v
             | None \<Rightarrow> (None, cache s))
      in case cached of
           Some syms \<Rightarrow> (s\<lparr>cache := cache'\<rparr>, Cached syms)
         | None \<Rightarrow>
             (case mapGet (inFlightRequests s) (requestKeyOf uri ver) of
                Some pending \<Rightarrow> (s\<lparr>cache := cache'\<rparr>, Awaits pending)
              | None \<Rightarrow>
                  (s\<lparr>cache := cache',
                     requests := requests s @
                       [\<lparr>requestKey = requestKeyOf uri ver, cacheKey = uri,
                         requestVersion = ver, stage = Pending\<rparr>],
                     inFlightRequests :=
                       mapSet (inFlightRequests s) (requestKeyOf uri ver) (length (requests s))\<rparr>,
                   Awaits (length (requests s)))))"

text \<open>
  The provider's answer: \<open>None\<close> when the command fails or its result has no recognised
  shape, which \<open>fetchAndNormalizeSymbols\<close> turns into the empty list.
\<close>

definition externalSettles :: "resolverState \<Rightarrow> nat \<Rightarrow> documentSymbol list option \<Rightarrow> resolverState" where
  "externalSettles s p answer =
     (if p < length (requests s) \<and> stage (requests s ! p) = Pending
      then s\<lparr>requests := (requests s)
               [p := (requests s ! p)\<lparr>stage := Fetched (case answer of Some syms \<Rightarrow> syms | None \<Rightarrow> [])\<rparr>]\<rparr>
      else s)"

definition thenRuns :: "resolverState \<Rightarrow> nat \<Rightarrow> resolverState" where
  "thenRuns s p =
     (if p < length (requests s)
      then (case stage (requests s ! p) of
              Fetched syms \<Rightarrow>
                s\<lparr>cache :=
                     (case requestVersion (requests s ! p) of
                        Some v \<Rightarrow> setCachedSymbols (cache s) (cacheKey (requests s ! p)) v syms
                      | None \<Rightarrow> cache s),
                   requests := (requests s)[p := (requests s ! p)\<lparr>stage := Stored syms\<rparr>]\<rparr>
            | _ \<Rightarrow> s)
      else s)"

definition finallyRuns :: "resolverState \<Rightarrow> nat \<Rightarrow> resolverState" where
  "finallyRuns s p =
     (if p < length (requests s)
      then (case stage (requests s ! p) of
              Stored syms \<Rightarrow>
                s\<lparr>inFlightRequests := mapDelete (inFlightRequests s) (requestKey (requests s ! p)),
                   requests := (requests s)[p := (requests s ! p)\<lparr>stage := Settled syms\<rparr>]\<rparr>
            | _ \<Rightarrow> s)
      else s)"

definition clearInFlightByPrefix :: "(string, nat) jsMap \<Rightarrow> string \<Rightarrow> (string, nat) jsMap" where
  "clearInFlightByPrefix m prefix = filter (\<lambda>e. \<not> startsWith (fst e) prefix) m"

definition clearSymbolCache :: "resolverState \<Rightarrow> string \<Rightarrow> resolverState" where
  "clearSymbolCache s uri =
     s\<lparr>cache := mapDelete (cache s) uri,
       inFlightRequests := clearInFlightByPrefix (inFlightRequests s) (uri @ ''#'')\<rparr>"

definition clearAllSymbolCache :: "resolverState \<Rightarrow> resolverState" where
  "clearAllSymbolCache s = s\<lparr>cache := [], inFlightRequests := []\<rparr>"

datatype event =
    Resolve string "int option"
  | ExternalSettles nat "documentSymbol list option"
  | ThenRuns nat
  | FinallyRuns nat
  | ClearSymbolCache string
  | ClearAllSymbolCache

fun applyEvent :: "resolverState \<Rightarrow> event \<Rightarrow> resolverState" where
  "applyEvent s (Resolve uri ver) = fst (resolveSymbols s uri ver)"
| "applyEvent s (ExternalSettles p answer) = externalSettles s p answer"
| "applyEvent s (ThenRuns p) = thenRuns s p"
| "applyEvent s (FinallyRuns p) = finallyRuns s p"
| "applyEvent s (ClearSymbolCache uri) = clearSymbolCache s uri"
| "applyEvent s ClearAllSymbolCache = clearAllSymbolCache s"

definition runEvents :: "event list \<Rightarrow> resolverState" where
  "runEvents evs = foldl applyEvent initialState evs"

fun isInvalidation :: "event \<Rightarrow> bool" where
  "isInvalidation (ClearSymbolCache uri) = True"
| "isInvalidation ClearAllSymbolCache = True"
| "isInvalidation ev = False"

text \<open>
  Request \<open>p\<close> is the external lookup for document \<open>uri\<close> at version \<open>ver\<close>, and the provider
  has not answered it yet.
\<close>

definition pendingFor :: "resolverState \<Rightarrow> nat \<Rightarrow> string \<Rightarrow> int option \<Rightarrow> bool" where
  "pendingFor s p uri ver \<longleftrightarrow>
     p < length (requests s) \<and> cacheKey (requests s ! p) = uri
     \<and> requestVersion (requests s ! p) = ver \<and> stage (requests s ! p) = Pending"

text \<open>What holds of the state as long as no invalidation has run.\<close>

definition cacheHolds :: "symbolCache \<Rightarrow> string \<Rightarrow> int \<Rightarrow> bool" where
  "cacheHolds c uri v \<longleftrightarrow> (case mapGet c uri of Some e \<Rightarrow> version e = v | None \<Rightarrow> False)"

definition isSettled :: "stage \<Rightarrow> bool" where
  "isSettled st \<longleftrightarrow> (case st of Settled syms \<Rightarrow> True | _ \<Rightarrow> False)"

definition beforeThen :: "stage \<Rightarrow> bool" where
  "beforeThen st \<longleftrightarrow> (case st of Pending \<Rightarrow> True | Fetched syms \<Rightarrow> True | _ \<Rightarrow> False)"

definition coalesced :: "resolverState \<Rightarrow> bool" where
  "coalesced s \<longleftrightarrow>
     (\<forall>p<length (requests s).
        requestKey (requests s ! p)
          = requestKeyOf (cacheKey (requests s ! p)) (requestVersion (requests s ! p)))
     \<and> (\<forall>k p. mapGet (inFlightRequests s) k = Some p \<longrightarrow>
          p < length (requests s) \<and> requestKey (requests s ! p) = k
          \<and> \<not> isSettled (stage (requests s ! p)))
     \<and> (\<forall>p<length (requests s).
          \<not> isSettled (stage (requests s ! p)) \<longrightarrow>
          mapGet (inFlightRequests s) (requestKey (requests s ! p)) = Some p)
     \<and> (\<forall>p<length (requests s). \<forall>v.
          beforeThen (stage (requests s ! p)) \<and> requestVersion (requests s ! p) = Some v \<longrightarrow>
          \<not> cacheHolds (cache s) (cacheKey (requests s ! p)) v)"

text \<open>Event sequences of the concrete checks.\<close>

definition oneLookup :: "event list" where
  "oneLookup = [Resolve ''u'' (Some 1)]"

definition lookupClearedAndRepeated :: "event list" where
  "lookupClearedAndRepeated = [Resolve ''u'' (Some 1), ClearSymbolCache ''u'', Resolve ''u'' (Some 1)]"

section \<open>Properties of the cursor locator\<close>

lemma findLoop_bounds:
  assumes "l \<le> r" "r \<le> length ms"
    and "\<forall>i<l. startLine (ms ! i) \<le> c"
    and "\<forall>i. r \<le> i \<and> i < length ms \<longrightarrow> c < startLine (ms ! i)"
    and "sorted (map startLine ms)"
  shows "l \<le> findLoop ms c l r \<and> findLoop ms c l r \<le> r
       \<and> (\<forall>i<findLoop ms c l r. startLine (ms ! i) \<le> c)
       \<and> (\<forall>i. findLoop ms c l r \<le> i \<and> i < length ms \<longrightarrow> c < startLine (ms ! i))"
  using assms
proof (induction ms c l r rule: findLoop.induct)
  case (1 ms c l r)
  show ?case
  proof (cases "l < r")
    case False
    then have "findLoop ms c l r = l" by (subst findLoop.simps) simp
    with False "1.prems" show ?thesis by auto
  next
    case True
    define mid where "mid = l + (r - l) div 2"
    have mid: "l \<le> mid" "mid < r" "mid < length ms" using True "1.prems"(2) by (auto simp: mid_def)
    show ?thesis
    proof (cases "startLine (ms ! mid) \<le> c")
      case le: True
      have below: "\<forall>i<mid + 1. startLine (ms ! i) \<le> c"
      proof (intro allI impI)
        fix i assume "i < mid + 1"
        then have "i \<le> mid" by simp
        then have "startLine (ms ! i) \<le> startLine (ms ! mid)"
          using "1.prems"(5) mid(3) by (simp add: sorted_iff_nth_mono)
        with le show "startLine (ms ! i) \<le> c" by simp
      qed
      have eq: "findLoop ms c l r = findLoop ms c (mid + 1) r"
        using True le mid by (simp add: findLoop.simps[of ms c l r] mid_def Let_def)
      have "mid + 1 \<le> findLoop ms c (mid + 1) r \<and> findLoop ms c (mid + 1) r \<le> r
       \<and> (\<forall>i<findLoop ms c (mid + 1) r. startLine (ms ! i) \<le> c)
       \<and> (\<forall>i. findLoop ms c (mid + 1) r \<le> i \<and> i < length ms \<longrightarrow> c < startLine (ms ! i))"
        using "1.IH"(1)[OF True mid_def] le mid below "1.prems" by simp
      with eq mid show ?thesis by auto
    next
      case gt: False
      have above: "\<forall>i. mid \<le> i \<and> i < length ms \<longrightarrow> c < startLine (ms ! i)"
      proof (intro allI impI)
        fix i assume "mid \<le> i \<and> i < length ms"
        then have "startLine (ms ! mid) \<le> startLine (ms ! i)"
          using "1.prems"(5) by (simp add: sorted_iff_nth_mono)
        with gt show "c < startLine (ms ! i)" by simp
      qed
      have eq: "findLoop ms c l r = findLoop ms c l mid"
        using True gt mid by (simp add: findLoop.simps[of ms c l r] mid_def Let_def)
      have "l \<le> findLoop ms c l mid \<and> findLoop ms c l mid \<le> mid
       \<and> (\<forall>i<findLoop ms c l mid. startLine (ms ! i) \<le> c)
       \<and> (\<forall>i. findLoop ms c l mid \<le> i \<and> i < length ms \<longrightarrow> c < startLine (ms ! i))"
        using "1.IH"(2)[OF True mid_def] gt mid above "1.prems" by simp
      with eq mid show ?thesis by auto
    qed
  qed
qed

lemma filter_prefix:
  assumes "k \<le> length xs" "\<forall>i<k. P (xs ! i)" "\<forall>i. k \<le> i \<and> i < length xs \<longrightarrow> \<not> P (xs ! i)"
  shows "filter P xs = take k xs"
proof -
  have a: "filter P (take k xs) = take k xs"
    using assms by (auto simp: filter_id_conv in_set_conv_nth)
  have b: "filter P (drop k xs) = []"
    using assms by (auto simp: filter_empty_conv in_set_conv_nth)
  have "filter P xs = filter P (take k xs @ drop k xs)" by simp
  also have "\<dots> = take k xs" unfolding filter_append a b by simp
  finally show ?thesis .
qed

lemma findLoop_filter:
  assumes "sortedByStart ms"
  shows "startedAtOrBefore ms c = take (findLoop ms c 0 (length ms)) ms"
    and "findLoop ms c 0 (length ms) \<le> length ms"
proof -
  have s: "sorted (map startLine ms)" using assms by (simp add: sortedByStart_def)
  have b: "0 \<le> findLoop ms c 0 (length ms) \<and> findLoop ms c 0 (length ms) \<le> length ms
       \<and> (\<forall>i<findLoop ms c 0 (length ms). startLine (ms ! i) \<le> c)
       \<and> (\<forall>i. findLoop ms c 0 (length ms) \<le> i \<and> i < length ms \<longrightarrow> c < startLine (ms ! i))"
    by (rule findLoop_bounds) (use s in auto)
  then show "findLoop ms c 0 (length ms) \<le> length ms" by simp
  show "startedAtOrBefore ms c = take (findLoop ms c 0 (length ms)) ms"
    unfolding startedAtOrBefore_def
    by (rule filter_prefix) (use b in \<open>auto simp: not_le\<close>)
qed


lemma binarySearchMethod_exact:
  assumes "sortedByStart ms"
  shows "binarySearchMethod ms cursor =
           (if startedAtOrBefore ms cursor \<noteq> [] \<and> cursor \<le> endLine (last ms)
               \<and> cursor \<le> endLine (last (startedAtOrBefore ms cursor))
            then Some (last (startedAtOrBefore ms cursor)) else None)"
proof -
  define k where "k = findLoop ms cursor 0 (length ms)"
  have fs: "startedAtOrBefore ms cursor = take k ms" and kle: "k \<le> length ms"
    using findLoop_filter[OF assms, of cursor] by (simp_all add: k_def)
  show ?thesis
  proof (cases "ms = []")
    case True
    then show ?thesis by (simp add: binarySearchMethod_def startedAtOrBefore_def)
  next
    case ne: False
    then have last_ms: "ms ! (length ms - 1) = last ms" by (simp add: last_conv_nth)
    show ?thesis
    proof (cases "k = 0")
      case True
      then have "findRightmostStartLineAtOrBefore ms cursor < 0"
        by (simp add: findRightmostStartLineAtOrBefore_def k_def)
      with True fs ne show ?thesis
        by (simp add: binarySearchMethod_def Let_def)
    next
      case False
      then have kpos: "0 < k" by simp
      have idx: "findRightmostStartLineAtOrBefore ms cursor = int (k - 1)"
        using kpos by (simp add: findRightmostStartLineAtOrBefore_def k_def)
      have nonempty: "take k ms \<noteq> []" using kpos ne by simp
      have cand: "last (take k ms) = ms ! (k - 1)"
        using kpos kle nonempty by (simp add: last_conv_nth min_def)
      have "ms ! (k - 1) \<in> set (startedAtOrBefore ms cursor)"
        using kpos kle cand fs ne by (metis last_in_set take_eq_Nil not_less0 less_numeral_extra(3))
      then have started: "startLine (ms ! (k - 1)) \<le> cursor"
        by (simp add: startedAtOrBefore_def)
      have "ms ! 0 \<in> set (take k ms)"
        using kpos kle ne by (simp add: in_set_conv_nth) (metis nth_take)
      then have "ms ! 0 \<in> set (startedAtOrBefore ms cursor)" by (simp only: fs)
      then have first: "startLine (ms ! 0) \<le> cursor"
        by (simp add: startedAtOrBefore_def)
      have nk: "nat (int k - 1) = k - Suc 0" "k - Suc 0 < length ms"
        using kpos kle by auto
      show ?thesis
        using ne kpos kle idx cand started first nonempty last_ms fs nk
        by (simp add: binarySearchMethod_def Let_def isLineInsideMethod_def not_less)
    qed
  qed
qed

lemma sorted_end_last:
  assumes "sortedByEnd ms" "D \<in> set ms"
  shows "endLine D \<le> endLine (last ms)"
proof -
  from assms(2) obtain i where i: "i < length ms" "ms ! i = D" by (auto simp: in_set_conv_nth)
  then have ne: "ms \<noteq> []" by auto
  have "sorted (map endLine ms)" using assms(1) by (simp add: sortedByEnd_def)
  then have "map endLine ms ! i \<le> map endLine ms ! (length ms - 1)"
    using i by (intro sorted_nth_mono) auto
  then show ?thesis using i ne by (simp add: last_conv_nth)
qed

lemma sorted_end_candidate:
  assumes "sortedByEnd ms" "D \<in> set ms" "startLine D \<le> cursor"
  shows "endLine D \<le> endLine (last (startedAtOrBefore ms cursor))"
proof -
  have "sorted (map endLine ms)" using assms(1) by (simp add: sortedByEnd_def)
  then have "sorted (map endLine (startedAtOrBefore ms cursor))"
    unfolding startedAtOrBefore_def by (induction ms) auto
  then have "sortedByEnd (startedAtOrBefore ms cursor)" by (simp add: sortedByEnd_def)
  moreover have "D \<in> set (startedAtOrBefore ms cursor)"
    using assms(2,3) by (simp add: startedAtOrBefore_def)
  ultimately show ?thesis by (rule sorted_end_last)
qed

text \<open>
  Claim C1, as the code has it. For a list ascending by start line, \<open>binarySearchMethod\<close>
  returns the declaration with the rightmost start cursor at or before the query cursor when
  the query cursor is at most that declaration's end cursor and at most the last declaration's
  end cursor, and none otherwise. So whatever it returns is a member of the list that contains
  the cursor, and a cursor that no declaration contains (a gap) yields none. When the end lines
  are ascending as well, it returns none only when no declaration contains the cursor.
\<close>

theorem binarySearchMethod_rightmost_candidate:
  assumes "sortedByStart ms"
  shows "binarySearchMethod ms cursor =
           (if startedAtOrBefore ms cursor \<noteq> [] \<and> cursor \<le> endLine (last ms)
               \<and> cursor \<le> endLine (last (startedAtOrBefore ms cursor))
            then Some (last (startedAtOrBefore ms cursor)) else None)
       \<and> (\<forall>D. binarySearchMethod ms cursor = Some D \<longrightarrow> D \<in> set ms \<and> isLineInsideMethod D cursor)
       \<and> (sortedByEnd ms \<longrightarrow>
            (binarySearchMethod ms cursor = None) = (\<forall>D\<in>set ms. \<not> isLineInsideMethod D cursor))"
proof -
  let ?fs = "startedAtOrBefore ms cursor"
  note ex = binarySearchMethod_exact[OF assms, of cursor]
  have mem: "?fs \<noteq> [] \<Longrightarrow> last ?fs \<in> set ms \<and> startLine (last ?fs) \<le> cursor"
  proof -
    assume "?fs \<noteq> []"
    then have "last ?fs \<in> set ?fs" by simp
    then show ?thesis by (simp add: startedAtOrBefore_def)
  qed
  have sound: "\<forall>D. binarySearchMethod ms cursor = Some D \<longrightarrow> D \<in> set ms \<and> isLineInsideMethod D cursor"
    using ex mem by (auto simp: isLineInsideMethod_def split: if_splits)
  have complete: "(binarySearchMethod ms cursor = None) = (\<forall>D\<in>set ms. \<not> isLineInsideMethod D cursor)"
    if se: "sortedByEnd ms"
  proof
    assume none: "binarySearchMethod ms cursor = None"
    show "\<forall>D\<in>set ms. \<not> isLineInsideMethod D cursor"
    proof
      fix D assume D: "D \<in> set ms"
      show "\<not> isLineInsideMethod D cursor"
      proof
        assume "isLineInsideMethod D cursor"
        then have in1: "startLine D \<le> cursor" and in2: "cursor \<le> endLine D"
          by (simp_all add: isLineInsideMethod_def)
        have "?fs \<noteq> []" using D in1 by (auto simp: startedAtOrBefore_def filter_empty_conv)
        moreover have "cursor \<le> endLine (last ms)" using sorted_end_last[OF se D] in2 by simp
        moreover have "cursor \<le> endLine (last ?fs)" using sorted_end_candidate[OF se D in1] in2 by simp
        ultimately show False using ex none by simp
      qed
    qed
  next
    assume "\<forall>D\<in>set ms. \<not> isLineInsideMethod D cursor"
    then show "binarySearchMethod ms cursor = None" using sound by (cases "binarySearchMethod ms cursor") auto
  qed
  show ?thesis using ex sound complete by blast
qed

text \<open>Two adjacent, non-overlapping ranges: line 6 is inside the second, line 4 is in the gap.\<close>

theorem binarySearchMethod_rightmost_candidate_witness:
  "sortedByStart [mkDoc 1 3, mkDoc 5 8] \<and> sortedByEnd [mkDoc 1 3, mkDoc 5 8]
   \<and> binarySearchMethod [mkDoc 1 3, mkDoc 5 8] 6 = Some (mkDoc 5 8)
   \<and> isLineInsideMethod (mkDoc 5 8) 6
   \<and> binarySearchMethod [mkDoc 1 3, mkDoc 5 8] 4 = None
   \<and> \<not> isLineInsideMethod (mkDoc 1 3) 4 \<and> \<not> isLineInsideMethod (mkDoc 5 8) 4"
proof -
  have s: "sortedByStart [mkDoc 1 3, mkDoc 5 8]" by (simp add: sortedByStart_def mkDoc_def)
  have e: "sortedByEnd [mkDoc 1 3, mkDoc 5 8]" by (simp add: sortedByEnd_def mkDoc_def)
  show ?thesis
    using s e binarySearchMethod_rightmost_candidate[OF s, of 6]
      binarySearchMethod_rightmost_candidate[OF s, of 4]
    by (simp add: startedAtOrBefore_def isLineInsideMethod_def mkDoc_def)
qed

text \<open>
  With overlapping ranges the claim, as stated for every list ascending by start line, fails:
  line 5 lies inside the declaration spanning lines 1 to 10, but the candidate with the
  rightmost start line is the one spanning lines 3 to 4, and the locator answers none.
\<close>

theorem binarySearchMethod_overlap_counterexample:
  "[mkDoc 1 10, mkDoc 3 4, mkDoc 20 30] \<noteq> []
   \<and> sortedByStart [mkDoc 1 10, mkDoc 3 4, mkDoc 20 30]
   \<and> mkDoc 1 10 \<in> set [mkDoc 1 10, mkDoc 3 4, mkDoc 20 30]
   \<and> startLine (mkDoc 1 10) \<le> 5 \<and> 5 \<le> endLine (mkDoc 1 10)
   \<and> binarySearchMethod [mkDoc 1 10, mkDoc 3 4, mkDoc 20 30] 5 = None"
proof -
  have s: "sortedByStart [mkDoc 1 10, mkDoc 3 4, mkDoc 20 30]"
    by (simp add: sortedByStart_def mkDoc_def)
  show ?thesis
    using s binarySearchMethod_exact[OF s, of 5]
    by (simp add: startedAtOrBefore_def mkDoc_def)
qed

section \<open>Properties of the symbol cache\<close>






lemma mapDelete_absent: "\<not> mapHas m k \<Longrightarrow> mapDelete m k = m"
  by (induction m) (auto simp: mapDelete_def mapHas_def)





















section \<open>Properties of symbol tree flattening\<close>

lemma class_not_leaf: "isClassLikeSymbol s \<Longrightarrow> \<not> isLeafSymbol s"
  by (auto simp: isClassLikeSymbol_def isLeafSymbol_def isMethodSymbol_def isFieldSymbol_def
      isEnumMemberSymbol_def CLASS_LIKE_KINDS_def METHOD_KINDS_def FIELD_KINDS_def)

lemma reaches_Nil: "reaches [] chain s \<longleftrightarrow> False"
  by (auto elim: reaches.cases)

lemma reaches_Cons:
  "reaches (c # rest) chain s \<longleftrightarrow>
     (chain = [] \<and> s = c)
   \<or> (isClassLikeSymbol c \<and> (\<exists>chain'. chain = name c # chain' \<and> reaches (children c) chain' s))
   \<or> reaches rest chain s"
  (is "?L \<longleftrightarrow> ?R")
proof
  assume ?L
  then show ?R by (cases rule: reaches.cases) (auto intro: reaches.intros)
next
  assume ?R
  then consider "chain = []" "s = c"
    | chain' where "isClassLikeSymbol c" "chain = name c # chain'" "reaches (children c) chain' s"
    | "reaches rest chain s" by blast
  then show ?L
  proof cases
    case 1
    then show ?thesis by (simp add: reaches.here)
  next
    case 2
    then show ?thesis by (simp add: reaches.down)
  next
    case 3
    then show ?thesis
      by (cases rule: reaches.cases) (auto intro: reaches.intros)
  qed
qed

lemma joinWith_Cons: "joinWith sep (x # xs) = x @ concat (map (\<lambda>y. sep @ y) xs)"
  by (induction xs arbitrary: x) auto

lemma ownerTag_Nil: "ownerTag [] = ''Unknown''"
  by (simp add: ownerTag_def)

lemma tagOf_Cons:
  "tagOf parentName (n # chain) = tagOf (if parentName \<noteq> [] then parentName @ ''.'' @ n else n) chain"
  by (auto simp: tagOf_def ownerTag_def joinWith_Cons Let_def)

lemma flattenSymbols_set:
  "set (flattenSymbols syms parentName) =
     {\<lparr>symbol = s, owner = tagOf parentName chain\<rparr> | s chain. reaches syms chain s \<and> isLeafSymbol s}"
proof (induction syms parentName rule: flattenSymbols.induct)
  case (1 parentName)
  then show ?case by (simp add: reaches_Nil)
next
  case (2 n d k r sr ch rest parentName)
  let ?c = "DocumentSymbol n d k r sr ch"
  let ?cur = "if parentName \<noteq> [] then parentName @ ''.'' @ n else n"
  let ?E = "\<lambda>syms p. {\<lparr>symbol = s, owner = tagOf p chain\<rparr> | s chain. reaches syms chain s \<and> isLeafSymbol s}"
  have rest: "set (flattenSymbols rest parentName) = ?E rest parentName"
    using "2.IH"(2) by simp
  have split: "?E (?c # rest) parentName =
      (if isLeafSymbol ?c then {\<lparr>symbol = ?c, owner = tagOf parentName []\<rparr>} else {})
      \<union> (if isClassLikeSymbol ?c then ?E ch ?cur else {})
      \<union> ?E rest parentName"
  proof (intro set_eqI iffI)
    fix x
    assume "x \<in> ?E (?c # rest) parentName"
    then obtain s chain where x: "x = \<lparr>symbol = s, owner = tagOf parentName chain\<rparr>"
      and r: "reaches (?c # rest) chain s" and l: "isLeafSymbol s" by blast
    from r consider (a) "chain = []" "s = ?c"
      | (b) chain' where "isClassLikeSymbol ?c" "chain = n # chain'" "reaches ch chain' s"
      | (c) "reaches rest chain s"
      unfolding reaches_Cons by auto
    then show "x \<in> (if isLeafSymbol ?c then {\<lparr>symbol = ?c, owner = tagOf parentName []\<rparr>} else {})
      \<union> (if isClassLikeSymbol ?c then ?E ch ?cur else {}) \<union> ?E rest parentName"
    proof cases
      case a
      then show ?thesis using x l by simp
    next
      case b
      have "x = \<lparr>symbol = s, owner = tagOf ?cur chain'\<rparr>"
        using x b(2) tagOf_Cons[of parentName n chain'] by simp
      then have "x \<in> ?E ch ?cur" using b(3) l by blast
      then show ?thesis using b(1) by simp
    next
      case c
      then have "x \<in> ?E rest parentName" using x l by blast
      then show ?thesis by simp
    qed
  next
    fix x
    assume "x \<in> (if isLeafSymbol ?c then {\<lparr>symbol = ?c, owner = tagOf parentName []\<rparr>} else {})
      \<union> (if isClassLikeSymbol ?c then ?E ch ?cur else {}) \<union> ?E rest parentName"
    then consider (a) "isLeafSymbol ?c" "x = \<lparr>symbol = ?c, owner = tagOf parentName []\<rparr>"
      | (b) "isClassLikeSymbol ?c" "x \<in> ?E ch ?cur"
      | (c) "x \<in> ?E rest parentName"
      by (auto split: if_splits)
    then show "x \<in> ?E (?c # rest) parentName"
    proof cases
      case a
      have "reaches (?c # rest) [] ?c" by (simp add: reaches_Cons)
      then show ?thesis using a by blast
    next
      case b
      then obtain s chain' where x: "x = \<lparr>symbol = s, owner = tagOf ?cur chain'\<rparr>"
        and r: "reaches ch chain' s" and l: "isLeafSymbol s" by blast
      have "reaches (?c # rest) (n # chain') s" using b(1) r by (simp add: reaches_Cons)
      moreover have "x = \<lparr>symbol = s, owner = tagOf parentName (n # chain')\<rparr>"
        using x tagOf_Cons[of parentName n chain'] by simp
      ultimately show ?thesis using l by blast
    next
      case c
      then obtain s chain where x: "x = \<lparr>symbol = s, owner = tagOf parentName chain\<rparr>"
        and r: "reaches rest chain s" and l: "isLeafSymbol s" by blast
      have "reaches (?c # rest) chain s" using r by (simp add: reaches_Cons)
      then show ?thesis using x l by blast
    qed
  qed
  have leaf0: "tagOf parentName [] = (if parentName \<noteq> [] then parentName else ''Unknown'')"
    by (simp add: tagOf_def ownerTag_Nil)
  show ?case
  proof (cases "isClassLikeSymbol ?c")
    case cl: True
    then have nl: "\<not> isLeafSymbol ?c" by (rule class_not_leaf)
    have sub: "set (if length ch > 0 then flattenSymbols ch ?cur else []) = ?E ch ?cur"
    proof (cases "length ch > 0")
      case True
      then show ?thesis using "2.IH"(1)[OF refl cl refl True] by simp
    next
      case False
      then show ?thesis by (simp add: reaches_Nil)
    qed
    have "set (flattenSymbols (?c # rest) parentName)
        = set (if length ch > 0 then flattenSymbols ch ?cur else []) \<union> set (flattenSymbols rest parentName)"
      using cl by (simp add: Let_def)
    then show ?thesis unfolding sub rest split using cl nl by simp
  next
    case ncl: False
    show ?thesis
    proof (cases "isLeafSymbol ?c")
      case True
      then have "set (flattenSymbols (?c # rest) parentName)
          = {\<lparr>symbol = ?c, owner = tagOf parentName []\<rparr>} \<union> set (flattenSymbols rest parentName)"
        using ncl by (simp add: Let_def isLeafSymbol_def leaf0)
      then show ?thesis unfolding rest split using ncl True by simp
    next
      case False
      then have "set (flattenSymbols (?c # rest) parentName) = set (flattenSymbols rest parentName)"
        using ncl by (simp add: Let_def isLeafSymbol_def)
      then show ?thesis unfolding rest split using ncl False by simp
    qed
  qed
qed

lemma dropWhile_nonempty_names:
  "\<forall>n\<in>set chain. n \<noteq> [] \<Longrightarrow> dropWhile (\<lambda>n. n = []) chain = chain"
  by (cases chain) auto

lemma joinWith_Nil_iff:
  "joinWith sep xs = [] \<longleftrightarrow> xs = [] \<or> (sep = [] \<or> length xs = 1) \<and> (\<forall>x\<in>set xs. x = [])"
  by (induction sep xs rule: joinWith.induct) auto

text \<open>
  Claim C10, as the code has it. \<open>flattenSymbols\<close> emits exactly the leaf symbols (method,
  constructor, function, field, constant, enum member) reached from the roots through chains
  of class-like containers; each is tagged with the dot-joined names of those containers
  after leading empty names are skipped, or with \<open>Unknown\<close> when nothing is left. When no
  container on the chain has an empty name, the tag is the dot-joined chain, or \<open>Unknown\<close> for
  the empty chain. A symbol of any other kind is neither emitted nor descended into.
\<close>

theorem flattenSymbols_emits_reachable_leaves:
  "set (flattenSymbols roots []) =
     {\<lparr>symbol = s, owner = ownerTag chain\<rparr> | s chain. reaches roots chain s \<and> isLeafSymbol s}
   \<and> ((\<forall>n\<in>set chain. n \<noteq> []) \<longrightarrow>
        ownerTag chain = (if chain = [] then ''Unknown'' else joinWith ''.'' chain))"
proof -
  have "ownerTag chain = (if chain = [] then ''Unknown'' else joinWith ''.'' chain)"
    if "\<forall>n\<in>set chain. n \<noteq> []"
    using that dropWhile_nonempty_names[OF that]
    by (auto simp: ownerTag_def Let_def joinWith_Nil_iff)
  then show ?thesis
    using flattenSymbols_set[of roots "[]"] by (simp add: tagOf_def)
qed


lemma flattenSymbols_sampleTree:
  "flattenSymbols sampleTree [] =
     [\<lparr>symbol = mkSymbol ''m'' SkMethod [mkSymbol ''local'' SkFunction []], owner = ''Outer''\<rparr>,
      \<lparr>symbol = mkSymbol ''A'' SkEnumMember [], owner = ''Outer.Inner''\<rparr>]"
  by (simp add: sampleTree_def mkSymbol_def isClassLikeSymbol_def isMethodSymbol_def
      isFieldSymbol_def isEnumMemberSymbol_def CLASS_LIKE_KINDS_def METHOD_KINDS_def
      FIELD_KINDS_def)

text \<open>
  In the sample tree the enum member \<open>A\<close> is reached through \<open>Outer\<close> and \<open>Inner\<close>; the
  function nested in the method \<open>m\<close> and the method under the variable \<open>v\<close> are not emitted.
\<close>

theorem flattenSymbols_emits_reachable_leaves_witness:
  "reaches sampleTree [''Outer'', ''Inner''] (mkSymbol ''A'' SkEnumMember [])
   \<and> isLeafSymbol (mkSymbol ''A'' SkEnumMember [])
   \<and> ownerTag [''Outer'', ''Inner''] = ''Outer.Inner''
   \<and> \<lparr>symbol = mkSymbol ''A'' SkEnumMember [], owner = ''Outer.Inner''\<rparr>
        \<in> set (flattenSymbols sampleTree [])
   \<and> length (flattenSymbols sampleTree []) = 2
   \<and> mkSymbol ''g'' SkMethod [] \<notin> symbol ` set (flattenSymbols sampleTree [])
   \<and> mkSymbol ''local'' SkFunction [] \<notin> symbol ` set (flattenSymbols sampleTree [])"
proof -
  let ?A = "mkSymbol ''A'' SkEnumMember []"
  let ?Inner = "mkSymbol ''Inner'' SkEnum [?A]"
  let ?Outer = "mkSymbol ''Outer'' SkClass
        [mkSymbol ''m'' SkMethod [mkSymbol ''local'' SkFunction []], ?Inner,
         mkSymbol ''v'' SkVariable [mkSymbol ''g'' SkMethod []]]"
  have r0: "reaches (children ?Inner) [] ?A"
    by (rule reaches.here) (simp add: mkSymbol_def)
  have r1: "reaches (children ?Outer) (name ?Inner # []) ?A"
    by (rule reaches.down[OF _ _ r0])
       (simp_all add: mkSymbol_def isClassLikeSymbol_def CLASS_LIKE_KINDS_def)
  have r2: "reaches sampleTree (name ?Outer # name ?Inner # []) ?A"
    by (rule reaches.down[OF _ _ r1])
       (simp_all add: sampleTree_def mkSymbol_def isClassLikeSymbol_def CLASS_LIKE_KINDS_def)
  have r: "reaches sampleTree [''Outer'', ''Inner''] ?A"
    using r2 by (simp add: mkSymbol_def)
  have l: "isLeafSymbol ?A"
    by (simp add: isLeafSymbol_def isEnumMemberSymbol_def mkSymbol_def)
  have names: "\<forall>n\<in>set [''Outer'', ''Inner'']. n \<noteq> []" by simp
  note t = flattenSymbols_emits_reachable_leaves[of sampleTree "[''Outer'', ''Inner'']"]
  have tag: "ownerTag [''Outer'', ''Inner''] = ''Outer.Inner''"
    using t names by simp
  have "\<lparr>symbol = ?A, owner = ownerTag [''Outer'', ''Inner'']\<rparr> \<in> set (flattenSymbols sampleTree [])"
    using t r l by blast
  then have mem: "\<lparr>symbol = ?A, owner = ''Outer.Inner''\<rparr> \<in> set (flattenSymbols sampleTree [])"
    by (simp only: tag)
  show ?thesis
    using r l tag mem by (simp add: flattenSymbols_sampleTree) (simp add: mkSymbol_def)
qed

text \<open>
  A container with an empty name: the chain to \<open>m\<close> is not empty and its dot-joined names are
  the empty string, yet \<open>m\<close> is tagged \<open>Unknown\<close>; the chain to \<open>f\<close> joins to \<open>.B\<close>, yet \<open>f\<close> is
  tagged \<open>B\<close>.
\<close>

theorem flattenSymbols_empty_name_counterexample:
  "reaches unnamedTree [[]] (mkSymbol ''m'' SkMethod [])
   \<and> reaches unnamedTree [[], ''B''] (mkSymbol ''f'' SkField [])
   \<and> flattenSymbols unnamedTree [] =
        [\<lparr>symbol = mkSymbol ''m'' SkMethod [], owner = ''Unknown''\<rparr>,
         \<lparr>symbol = mkSymbol ''f'' SkField [], owner = ''B''\<rparr>]
   \<and> joinWith ''.'' [[]] = []
   \<and> joinWith ''.'' [[], ''B''] = ''.B''"
proof -
  let ?m = "mkSymbol ''m'' SkMethod []"
  let ?f = "mkSymbol ''f'' SkField []"
  let ?B = "mkSymbol ''B'' SkClass [?f]"
  let ?U = "mkSymbol [] SkClass [?m, ?B]"
  have m0: "reaches (children ?U) [] ?m"
    by (rule reaches.here) (simp add: mkSymbol_def)
  have m1: "reaches unnamedTree (name ?U # []) ?m"
    by (rule reaches.down[OF _ _ m0])
       (simp_all add: unnamedTree_def mkSymbol_def isClassLikeSymbol_def CLASS_LIKE_KINDS_def)
  have f0: "reaches (children ?B) [] ?f"
    by (rule reaches.here) (simp add: mkSymbol_def)
  have f1: "reaches (children ?U) (name ?B # []) ?f"
    by (rule reaches.down[OF _ _ f0])
       (simp_all add: mkSymbol_def isClassLikeSymbol_def CLASS_LIKE_KINDS_def)
  have f2: "reaches unnamedTree (name ?U # name ?B # []) ?f"
    by (rule reaches.down[OF _ _ f1])
       (simp_all add: unnamedTree_def mkSymbol_def isClassLikeSymbol_def CLASS_LIKE_KINDS_def)
  have flat: "flattenSymbols unnamedTree [] =
        [\<lparr>symbol = ?m, owner = ''Unknown''\<rparr>, \<lparr>symbol = ?f, owner = ''B''\<rparr>]"
    by (simp add: unnamedTree_def mkSymbol_def isClassLikeSymbol_def isMethodSymbol_def
      isFieldSymbol_def isEnumMemberSymbol_def CLASS_LIKE_KINDS_def METHOD_KINDS_def
      FIELD_KINDS_def)
  show ?thesis
    using m1 f2 flat by (simp add: mkSymbol_def)
qed

section \<open>Properties of the tag table parser\<close>

lemma mergeSignature_declarations:
  "extractParenContent mergeSignature = Some ''@NotNull final String a, int[] b''"
  "splitByTopLevelComma ''@NotNull final String a, int[] b''
     = [''@NotNull final String a'', '' int[] b'']"
  unfolding mergeSignature_def by code_simp+

lemma parseDeclaration_a:
  "parseDeclaration m ''@NotNull final String a'' = m(''a'' \<mapsto> ''String'')"
proof -
  have 1: "trim ''@NotNull final String a'' = ''@NotNull final String a''" by code_simp
  have 2: "stripAnnotationsAndModifiers ''@NotNull final String a'' = ''String a''" by code_simp
  have 3: "lastIndexOf ''String a'' CHR '' '' = Some 6" by code_simp
  have 4: "trim (slice ''String a'' 0 6) = ''String''" by code_simp
  have 5: "trim (sliceFrom ''String a'' 7) = ''a''" by code_simp
  show ?thesis by (simp add: parseDeclaration_def 1 2 3 4 5 del: One_nat_def)
qed

lemma parseDeclaration_b:
  "parseDeclaration m '' int[] b'' = m(''b'' \<mapsto> ''int[]'')"
proof -
  have 1: "trim '' int[] b'' = ''int[] b''" by code_simp
  have 2: "stripAnnotationsAndModifiers ''int[] b'' = ''int[] b''" by code_simp
  have 3: "lastIndexOf ''int[] b'' CHR '' '' = Some 5" by code_simp
  have 4: "trim (slice ''int[] b'' 0 5) = ''int[]''" by code_simp
  have 5: "trim (sliceFrom ''int[] b'' 6) = ''b''" by code_simp
  show ?thesis by (simp add: parseDeclaration_def 1 2 3 4 5 del: One_nat_def)
qed

text \<open>
  Claim C4. For the signature
  \<open>public Map<String, List<Integer>> merge(@NotNull final String a, int[] b)\<close> the
  parameter-type table is exactly \<open>a \<mapsto> String, b \<mapsto> int[]\<close>, and the return type is
  \<open>Map<String, List<Integer>>\<close>.
\<close>

theorem mergeSignature_types:
  "parseSignatureParams mergeSignature = [''a'' \<mapsto> ''String'', ''b'' \<mapsto> ''int[]'']
   \<and> parseSignatureParams mergeSignature ''a'' = Some ''String''
   \<and> parseSignatureParams mergeSignature ''b'' = Some ''int[]''
   \<and> parseReturnType mergeSignature = ''Map<String, List<Integer>>''"
proof -
  have tbl: "parseSignatureParams mergeSignature = [''a'' \<mapsto> ''String'', ''b'' \<mapsto> ''int[]'']"
    by (simp add: parseSignatureParams_def mergeSignature_declarations
        parseDeclaration_a parseDeclaration_b)
  have ret: "parseReturnType mergeSignature = ''Map<String, List<Integer>>''"
    unfolding mergeSignature_def by code_simp
  show ?thesis using ret by (simp add: tbl)
qed

lemma applyBlock_void_returns:
  "returns t = None \<Longrightarrow> returns (applyBlock paramTypes ''void'' t block) = None"
  by (simp add: applyBlock_def Let_def split: option.splits)

lemma foldl_applyBlock_void_returns:
  "returns t = None \<Longrightarrow> returns (foldl (applyBlock paramTypes ''void'') t bs) = None"
  by (induction bs arbitrary: t) (simp_all add: applyBlock_void_returns)

lemma constructorSignature_void: "parseReturnType constructorSignature = ''void''"
  unfolding constructorSignature_def by code_simp

text \<open>
  Claim C5. Whatever the raw tag text, and so also when it has an \<open>@return\<close> or \<open>@returns\<close>
  tag: if the signature's return type resolves to \<open>void\<close>, the tag table has no return tag.
  The constructor signature \<open>public Foo()\<close> resolves to \<open>void\<close>.
\<close>

theorem void_signature_no_return_tag:
  "(parseReturnType sig = ''void'' \<longrightarrow> returns (parseTagTable rawTags sig) = None)
   \<and> parseReturnType constructorSignature = ''void''"
proof -
  have "returns (parseTagTable rawTags sig) = None" if "parseReturnType sig = ''void''"
    using that foldl_applyBlock_void_returns[of createEmptyTagTable]
    by (simp add: parseTagTable_def Let_def createEmptyTagTable_def)
  then show ?thesis using constructorSignature_void by simp
qed

text \<open>A constructor comment with an \<open>@return\<close> tag: the tag is tokenized, and then dropped.\<close>

theorem void_signature_no_return_tag_witness:
  "parseReturnType constructorSignature = ''void''
   \<and> tokenizeTagBlocks ''@return the new Foo'' = [\<lparr>tag = ''return'', content = ''the new Foo''\<rparr>]
   \<and> returns (parseTagTable ''@return the new Foo'' constructorSignature) = None"
proof -
  have tok: "tokenizeTagBlocks ''@return the new Foo''
      = [\<lparr>tag = ''return'', content = ''the new Foo''\<rparr>]"
    by code_simp
  show ?thesis
    using void_signature_no_return_tag[of constructorSignature "''@return the new Foo''"] tok
    by simp
qed

section \<open>Properties of comment location and member parsing\<close>

lemma proseTagComment_clean: "cleanComment proseTagComment = proseTagContent"
  unfolding proseTagComment_def proseTagContent_def by code_simp

lemma proseTagContent_clean: "cleanComment proseTagContent = proseTagContent"
  unfolding proseTagContent_def by code_simp

lemma proseTagContent_search:
  "searchTag proseTagContent = Some 9"
  "trim (slice proseTagContent 0 9) = ''Computes''"
  "sliceFrom proseTagContent 9 = ''@return value. \<newline>@param x the input''"
  unfolding proseTagContent_def by code_simp+

lemma proseTag_blocks:
  "tokenizeTagBlocks ''@return value. \<newline>@param x the input''
     = [\<lparr>tag = ''return'', content = ''value.''\<rparr>, \<lparr>tag = ''param'', content = ''x the input''\<rparr>]"
  by code_simp

lemma proseTag_table:
  "parseTagTable ''@return value. \<newline>@param x the input'' ''public int f(int x)''
     = \<lparr>params = [\<lparr>paramName = ''x'', paramType = ''int'', paramDescription = ''the input''\<rparr>],
        returns = Some \<lparr>returnType = ''int'', returnDescription = ''value.''\<rparr>,
        throws = [], since = None, author = None, deprecated = None, see = [],
        doc = None, example = None\<rparr>"
  by code_simp

text \<open>
  Claim C2, at its own input. The comment content
  \<open>Computes @return value. \<newline>@param x the input\<close> (also when it arrives as a \<open>/** ... */\<close>
  block) is cut at the \<open>@return\<close> inside the prose: the description is \<open>Computes\<close>, which does
  not contain \<open>Computes @return value.\<close>, the rest is tokenized into a return block and a
  parameter block, and with a signature that returns \<open>int\<close> the table has a return tag
  \<open>value.\<close> next to the one parameter tag.
\<close>

theorem parseJavadoc_cuts_prose_at_return:
  "cleanComment proseTagComment = proseTagContent
   \<and> jdDescription (parseJavadoc proseTagContent sig) = ''Computes''
   \<and> jdDescription (parseJavadoc proseTagComment sig) = ''Computes''
   \<and> \<not> includesStr ''Computes'' ''Computes @return value.''
   \<and> tokenizeTagBlocks (sliceFrom proseTagContent 9)
        = [\<lparr>tag = ''return'', content = ''value.''\<rparr>, \<lparr>tag = ''param'', content = ''x the input''\<rparr>]
   \<and> parseJavadoc proseTagComment ''public int f(int x)''
        = \<lparr>jdDescription = ''Computes'',
           jdTags =
             \<lparr>params = [\<lparr>paramName = ''x'', paramType = ''int'', paramDescription = ''the input''\<rparr>],
              returns = Some \<lparr>returnType = ''int'', returnDescription = ''value.''\<rparr>,
              throws = [], since = None, author = None, deprecated = None, see = [],
              doc = None, example = None\<rparr>\<rparr>"
proof -
  have inc: "\<not> includesStr ''Computes'' ''Computes @return value.''" by code_simp
  show ?thesis
    using inc
    by (simp add: parseJavadoc_def Let_def proseTagComment_clean proseTagContent_clean
        proseTagContent_search proseTag_blocks proseTag_table)
qed






lemma notNull_map_snd_parseMethod:
  "notNull (map snd (map (\<lambda>fs. parseMethod text fs cc) xs))
     = successes (\<lambda>fs. parseMethodBody text fs cc) xs"
  by (induction xs)
     (auto simp: notNull_def successes_def parseMethod_def List.map_filter_simps split: sum.splits)

lemma notNull_map_snd_parseField:
  "notNull (map snd (map (\<lambda>fs. parseField text fs cc) xs))
     = successes (\<lambda>fs. parseFieldBody text fs cc) xs"
  by (induction xs)
     (auto simp: notNull_def successes_def parseField_def List.map_filter_simps split: sum.splits)

lemma notNull_map_snd_parseEnumConstant:
  "notNull (map snd (map (\<lambda>fs. parseEnumConstant text fs cc) xs))
     = successes (\<lambda>fs. parseEnumConstantBody text fs cc) xs"
  by (induction xs)
     (auto simp: notNull_def successes_def parseEnumConstant_def List.map_filter_simps
       split: sum.splits)

lemma log_parseMethod:
  "concat (map fst (map (\<lambda>fs. parseMethod text fs cc) xs))
     = map (\<lambda>fs. ''[JavaDocParser] Failed to parse method: '' @ name (symbol fs))
         (failures (\<lambda>fs. parseMethodBody text fs cc) xs)"
  by (induction xs) (auto simp: failures_def parseMethod_def split: sum.splits)

lemma log_parseField:
  "concat (map fst (map (\<lambda>fs. parseField text fs cc) xs))
     = map (\<lambda>fs. ''[JavaDocParser] Failed to parse field: '' @ name (symbol fs))
         (failures (\<lambda>fs. parseFieldBody text fs cc) xs)"
  by (induction xs) (auto simp: failures_def parseField_def split: sum.splits)

lemma log_parseEnumConstant:
  "concat (map fst (map (\<lambda>fs. parseEnumConstant text fs cc) xs))
     = map (\<lambda>fs. ''[JavaDocParser] Failed to parse enum constant: '' @ name (symbol fs))
         (failures (\<lambda>fs. parseEnumConstantBody text fs cc) xs)"
  by (induction xs) (auto simp: failures_def parseEnumConstant_def split: sum.splits)

lemma successes_member:
  "x \<in> set xs \<Longrightarrow> body x = Inr d \<Longrightarrow> d \<in> set (successes body xs)"
  by (induction xs) (auto simp: successes_def List.map_filter_simps split: sum.splits)

lemma parseMethodBody_throws:
  "isl (parseMethodBody text fs cc) \<longleftrightarrow> symbolRange (symbol fs) = None"
  by (simp add: parseMethodBody_def symbolStartLine_def symbolEndLine_def Let_def
      split: sum.splits option.splits)

text \<open>
  Claim C8, for the three member lists of \<open>parse\<close>. The extraction of a method throws exactly
  when the symbol has no \<open>range\<close>. Whatever extractions throw, the lists are built: the method
  list holds, sorted by start line, exactly the documents of the method symbols whose
  extraction succeeds (as a multiset: each once per symbol), likewise the field list and the
  enum-constant list; so a symbol whose extraction succeeds always has its document in the
  list; and the log names, in order, exactly the symbols whose extraction threw.
\<close>

theorem parseMembers_drops_only_failures:
  "mset (methods (parseMembers text fl cc))
     = mset (successes (\<lambda>fs. parseMethodBody text fs cc)
               (filter (\<lambda>fs. isMethodSymbol (symbol fs)) fl))
   \<and> sorted (map startLine (methods (parseMembers text fl cc)))
   \<and> mset (fieldDocs (parseMembers text fl cc))
     = mset (successes (\<lambda>fs. parseFieldBody text fs cc)
               (filter (\<lambda>fs. isFieldSymbol (symbol fs)) fl))
   \<and> mset (enumConstants (parseMembers text fl cc))
     = mset (successes (\<lambda>fs. parseEnumConstantBody text fs cc)
               (filter (\<lambda>fs. isEnumMemberSymbol (symbol fs)) fl))
   \<and> (\<forall>fs\<in>set fl. \<forall>d. isMethodSymbol (symbol fs) \<and> parseMethodBody text fs cc = Inr d
          \<longrightarrow> d \<in> set (methods (parseMembers text fl cc)))
   \<and> errorLog (parseMembers text fl cc)
     = map (\<lambda>fs. ''[JavaDocParser] Failed to parse method: '' @ name (symbol fs))
         (failures (\<lambda>fs. parseMethodBody text fs cc)
            (filter (\<lambda>fs. isMethodSymbol (symbol fs)) fl))
       @ map (\<lambda>fs. ''[JavaDocParser] Failed to parse field: '' @ name (symbol fs))
         (failures (\<lambda>fs. parseFieldBody text fs cc)
            (filter (\<lambda>fs. isFieldSymbol (symbol fs)) fl))
       @ map (\<lambda>fs. ''[JavaDocParser] Failed to parse enum constant: '' @ name (symbol fs))
         (failures (\<lambda>fs. parseEnumConstantBody text fs cc)
            (filter (\<lambda>fs. isEnumMemberSymbol (symbol fs)) fl))
   \<and> (isl (parseMethodBody text fs cc) \<longleftrightarrow> symbolRange (symbol fs) = None)"
proof -
  let ?r = "parseMembers text fl cc"
  have m: "methods ?r = sort_key startLine (successes (\<lambda>fs. parseMethodBody text fs cc)
               (filter (\<lambda>fs. isMethodSymbol (symbol fs)) fl))"
    by (simp add: parseMembers_def Let_def notNull_map_snd_parseMethod del: map_map)
  have f: "fieldDocs ?r = sort_key fieldStartLine (successes (\<lambda>fs. parseFieldBody text fs cc)
               (filter (\<lambda>fs. isFieldSymbol (symbol fs)) fl))"
    by (simp add: parseMembers_def Let_def notNull_map_snd_parseField del: map_map)
  have e: "enumConstants ?r = sort_key enumStartLine (successes (\<lambda>fs. parseEnumConstantBody text fs cc)
               (filter (\<lambda>fs. isEnumMemberSymbol (symbol fs)) fl))"
    by (simp add: parseMembers_def Let_def notNull_map_snd_parseEnumConstant del: map_map)
  have l: "errorLog ?r
     = map (\<lambda>fs. ''[JavaDocParser] Failed to parse method: '' @ name (symbol fs))
         (failures (\<lambda>fs. parseMethodBody text fs cc)
            (filter (\<lambda>fs. isMethodSymbol (symbol fs)) fl))
       @ map (\<lambda>fs. ''[JavaDocParser] Failed to parse field: '' @ name (symbol fs))
         (failures (\<lambda>fs. parseFieldBody text fs cc)
            (filter (\<lambda>fs. isFieldSymbol (symbol fs)) fl))
       @ map (\<lambda>fs. ''[JavaDocParser] Failed to parse enum constant: '' @ name (symbol fs))
         (failures (\<lambda>fs. parseEnumConstantBody text fs cc)
            (filter (\<lambda>fs. isEnumMemberSymbol (symbol fs)) fl))"
    by (simp add: parseMembers_def Let_def log_parseMethod log_parseField log_parseEnumConstant
        del: map_map)
  have mem: "\<forall>fs\<in>set fl. \<forall>d. isMethodSymbol (symbol fs) \<and> parseMethodBody text fs cc = Inr d
          \<longrightarrow> d \<in> set (methods ?r)"
    unfolding m by (auto intro: successes_member)
  have s: "sorted (map startLine (methods ?r))" unfolding m by simp
  show ?thesis
    using mem s l parseMethodBody_throws unfolding m f e by simp
qed


lemma lombokText_members:
  "parseMethodBody lombokText getMethod ''/** Service. */'' = Inr getDoc"
  "methods (parseMembers lombokText [brokenMethod, getMethod, logField] ''/** Service. */'')
     = [getDoc]"
  "errorLog (parseMembers lombokText [brokenMethod, getMethod, logField] ''/** Service. */'')
     = [''[JavaDocParser] Failed to parse method: broken'']"
  unfolding lombokText_def getMethod_def getDoc_def lineRangeOf_def brokenMethod_def logField_def
  by code_simp+

text \<open>
  A method symbol without a \<open>range\<close> next to a well-formed one: the first is logged and
  dropped, the second is in the list.
\<close>

theorem parseMembers_drops_only_failures_witness:
  "getMethod \<in> set [brokenMethod, getMethod, logField]
   \<and> isMethodSymbol (symbol getMethod)
   \<and> parseMethodBody lombokText getMethod ''/** Service. */'' = Inr getDoc
   \<and> getDoc \<in> set (methods (parseMembers lombokText [brokenMethod, getMethod, logField]
                            ''/** Service. */''))
   \<and> symbolRange (symbol brokenMethod) = None
   \<and> isl (parseMethodBody lombokText brokenMethod ''/** Service. */'')
   \<and> methods (parseMembers lombokText [brokenMethod, getMethod, logField] ''/** Service. */'')
       = [getDoc]
   \<and> errorLog (parseMembers lombokText [brokenMethod, getMethod, logField] ''/** Service. */'')
       = [''[JavaDocParser] Failed to parse method: broken'']"
proof -
  have i: "isMethodSymbol (symbol getMethod)"
    by (simp add: getMethod_def isMethodSymbol_def METHOD_KINDS_def)
  have n: "symbolRange (symbol brokenMethod) = None" by (simp add: brokenMethod_def)
  note t = parseMembers_drops_only_failures[of lombokText
      "[brokenMethod, getMethod, logField]" "''/** Service. */''" brokenMethod]
  have mem: "getDoc \<in> set (methods (parseMembers lombokText [brokenMethod, getMethod, logField]
                            ''/** Service. */''))"
    using t i lombokText_members(1) by auto
  have thr: "isl (parseMethodBody lombokText brokenMethod ''/** Service. */'')"
    using t n by blast
  show ?thesis using i n mem thr lombokText_members by simp
qed

section \<open>Properties of re-tokenizing\<close>

lemma trimmed_Nil [simp]: "trimmed []"
  by (simp add: trimmed_def)










lemma isSpace_LF [simp]: "isSpace (CHR 0x0A)"
  by (simp add: isSpace_def)



lemma splitChar_nonempty [simp]: "splitChar c s \<noteq> []"
  by (induction s) (auto split: list.splits)




























lemma not_word_space [simp]: "\<not> isWord (CHR '' '')"
  by (simp add: isWord_def isUpper_def isLower_def isDigit_def charCode_def)

lemma isSpace_space [simp]: "isSpace (CHR '' '')"
  by (simp add: isSpace_def)


lemma plainLine_Nil [simp]: "plainLine []"
  by (simp add: plainLine_def)

lemma contLine_Nil [simp]: "contLine []"
  by (simp add: contLine_def matchTagLine_def normalizeJavadocLine_def)








































section \<open>Properties of request coalescing\<close>

lemma mapGet_mapSet: "mapGet (mapSet m k v) k' = (if k' = k then Some v else mapGet m k')"
proof (cases "mapHas m k")
  case False
  then have "map_of m k = None" by (simp add: mapHas_def map_of_eq_None_iff)
  then show ?thesis using False by (auto simp: mapGet_def mapSet_def map_add_def split: option.splits)
next
  case True
  have "map_of (map (\<lambda>e. if fst e = k then (k, v) else e) m) k'
      = (if k' = k then (if k \<in> fst ` set m then Some v else None) else map_of m k')"
    by (induction m) (auto simp: rev_image_eqI)
  then show ?thesis using True by (simp add: mapGet_def mapSet_def mapHas_def)
qed

lemma mapGet_mapDelete: "mapGet (mapDelete m k) k' = (if k' = k then None else mapGet m k')"
  by (induction m) (auto simp: mapGet_def mapDelete_def)

lemma mapGet_Nil [simp]: "mapGet [] k = None"
  by (simp add: mapGet_def)


lemma mapGet_getCachedSymbols: "mapGet (snd (getCachedSymbols c k v)) k' = mapGet c k'"
  by (auto simp: getCachedSymbols_def mapGet_mapSet mapGet_mapDelete split: option.splits)

lemma cacheHolds_getCachedSymbols:
  "cacheHolds (snd (getCachedSymbols c k v)) k' v' = cacheHolds c k' v'"
  by (simp add: cacheHolds_def mapGet_getCachedSymbols)

lemma getCachedSymbols_miss:
  "fst (getCachedSymbols c k v) = None \<Longrightarrow> \<not> cacheHolds c k v \<and> snd (getCachedSymbols c k v) = c"
  by (auto simp: getCachedSymbols_def cacheHolds_def split: option.splits if_splits)

lemma cacheHolds_setCachedSymbols:
  "cacheHolds (setCachedSymbols c k v syms) k' v' \<Longrightarrow> (k' = k \<and> v' = v) \<or> cacheHolds c k' v'"
  by (auto simp: setCachedSymbols_def cacheHolds_def Let_def mapGet_mapSet mapGet_mapDelete
      split: option.splits if_splits)

lemma coalescedD:
  assumes "coalesced s"
  shows "p < length (requests s) \<Longrightarrow>
           requestKey (requests s ! p)
             = requestKeyOf (cacheKey (requests s ! p)) (requestVersion (requests s ! p))"
    and "mapGet (inFlightRequests s) k = Some p \<Longrightarrow>
           p < length (requests s) \<and> requestKey (requests s ! p) = k
           \<and> \<not> isSettled (stage (requests s ! p))"
    and "p < length (requests s) \<Longrightarrow> \<not> isSettled (stage (requests s ! p)) \<Longrightarrow>
           mapGet (inFlightRequests s) (requestKey (requests s ! p)) = Some p"
    and "p < length (requests s) \<Longrightarrow> beforeThen (stage (requests s ! p)) \<Longrightarrow>
           requestVersion (requests s ! p) = Some v \<Longrightarrow>
           \<not> cacheHolds (cache s) (cacheKey (requests s ! p)) v"
  using assms unfolding coalesced_def by blast+

lemma coalescedI:
  assumes "\<And>p. p < length (requests s) \<Longrightarrow>
           requestKey (requests s ! p)
             = requestKeyOf (cacheKey (requests s ! p)) (requestVersion (requests s ! p))"
    and "\<And>k p. mapGet (inFlightRequests s) k = Some p \<Longrightarrow>
           p < length (requests s) \<and> requestKey (requests s ! p) = k
           \<and> \<not> isSettled (stage (requests s ! p))"
    and "\<And>p. p < length (requests s) \<Longrightarrow> \<not> isSettled (stage (requests s ! p)) \<Longrightarrow>
           mapGet (inFlightRequests s) (requestKey (requests s ! p)) = Some p"
    and "\<And>p v. p < length (requests s) \<Longrightarrow> beforeThen (stage (requests s ! p)) \<Longrightarrow>
           requestVersion (requests s ! p) = Some v \<Longrightarrow>
           \<not> cacheHolds (cache s) (cacheKey (requests s ! p)) v"
  shows "coalesced s"
  unfolding coalesced_def using assms by blast

lemma coalesced_initial: "coalesced initialState"
  by (simp add: coalesced_def initialState_def)

lemma coalesced_cache_lookup:
  assumes "coalesced s" "\<And>k v. cacheHolds c k v = cacheHolds (cache s) k v"
  shows "coalesced (s\<lparr>cache := c\<rparr>)"
proof (rule coalescedI)
  fix p k v
  show "p < length (requests (s\<lparr>cache := c\<rparr>)) \<Longrightarrow>
         requestKey (requests (s\<lparr>cache := c\<rparr>) ! p)
           = requestKeyOf (cacheKey (requests (s\<lparr>cache := c\<rparr>) ! p))
               (requestVersion (requests (s\<lparr>cache := c\<rparr>) ! p))"
    using coalescedD(1)[OF assms(1), of p] by simp
  show "mapGet (inFlightRequests (s\<lparr>cache := c\<rparr>)) k = Some p \<Longrightarrow>
         p < length (requests (s\<lparr>cache := c\<rparr>))
         \<and> requestKey (requests (s\<lparr>cache := c\<rparr>) ! p) = k
         \<and> \<not> isSettled (stage (requests (s\<lparr>cache := c\<rparr>) ! p))"
    using coalescedD(2)[OF assms(1), of k p] by simp
  show "p < length (requests (s\<lparr>cache := c\<rparr>)) \<Longrightarrow>
         \<not> isSettled (stage (requests (s\<lparr>cache := c\<rparr>) ! p)) \<Longrightarrow>
         mapGet (inFlightRequests (s\<lparr>cache := c\<rparr>))
           (requestKey (requests (s\<lparr>cache := c\<rparr>) ! p)) = Some p"
    using coalescedD(3)[OF assms(1), of p] by simp
  show "p < length (requests (s\<lparr>cache := c\<rparr>)) \<Longrightarrow>
         beforeThen (stage (requests (s\<lparr>cache := c\<rparr>) ! p)) \<Longrightarrow>
         requestVersion (requests (s\<lparr>cache := c\<rparr>) ! p) = Some v \<Longrightarrow>
         \<not> cacheHolds (cache (s\<lparr>cache := c\<rparr>)) (cacheKey (requests (s\<lparr>cache := c\<rparr>) ! p)) v"
    using coalescedD(4)[OF assms(1), of p v] assms(2) by simp
qed

lemma beforeThen_not_settled: "beforeThen st \<Longrightarrow> \<not> isSettled st"
  by (cases st) (simp_all add: beforeThen_def isSettled_def)

lemma resolveSymbols_cases:
  obtains
    (hit) v syms where "ver = Some v" "fst (getCachedSymbols (cache s) uri v) = Some syms"
      "resolveSymbols s uri ver = (s\<lparr>cache := snd (getCachedSymbols (cache s) uri v)\<rparr>, Cached syms)"
  | (joined) pending where "mapGet (inFlightRequests s) (requestKeyOf uri ver) = Some pending"
      "\<forall>v. ver = Some v \<longrightarrow> \<not> cacheHolds (cache s) uri v"
      "resolveSymbols s uri ver = (s, Awaits pending)"
  | (issued) "mapGet (inFlightRequests s) (requestKeyOf uri ver) = None"
      "\<forall>v. ver = Some v \<longrightarrow> \<not> cacheHolds (cache s) uri v"
      "resolveSymbols s uri ver =
         (s\<lparr>requests := requests s @
               [\<lparr>requestKey = requestKeyOf uri ver, cacheKey = uri,
                 requestVersion = ver, stage = Pending\<rparr>],
             inFlightRequests :=
               mapSet (inFlightRequests s) (requestKeyOf uri ver) (length (requests s))\<rparr>,
          Awaits (length (requests s)))"
proof -
  define got where "got = (case ver of Some v \<Rightarrow> getCachedSymbols (cache s) uri v
                            | None \<Rightarrow> (None, cache s))"
  show ?thesis
  proof (cases "fst got")
    case (Some syms)
    then obtain v where v: "ver = Some v" by (cases ver) (auto simp: got_def)
    then have g: "fst (getCachedSymbols (cache s) uri v) = Some syms" using Some by (simp add: got_def)
    have "resolveSymbols s uri ver = (s\<lparr>cache := snd (getCachedSymbols (cache s) uri v)\<rparr>, Cached syms)"
      using v g by (auto simp: resolveSymbols_def split: prod.splits)
    then show ?thesis using v g hit by blast
  next
    case None
    have miss: "\<forall>v. ver = Some v \<longrightarrow> \<not> cacheHolds (cache s) uri v"
      using None getCachedSymbols_miss by (auto simp: got_def)
    have same: "snd got = cache s"
      using None getCachedSymbols_miss by (cases ver) (auto simp: got_def)
    have g: "got = (None, cache s)" using None same by (cases got) simp
    show ?thesis
    proof (cases "mapGet (inFlightRequests s) (requestKeyOf uri ver)")
      case (Some pending)
      have "resolveSymbols s uri ver = (s, Awaits pending)"
        using g Some unfolding resolveSymbols_def got_def[symmetric] by simp
      then show ?thesis using Some miss joined by blast
    next
      case nomarker: None
      have "resolveSymbols s uri ver =
         (s\<lparr>requests := requests s @
               [\<lparr>requestKey = requestKeyOf uri ver, cacheKey = uri,
                 requestVersion = ver, stage = Pending\<rparr>],
             inFlightRequests :=
               mapSet (inFlightRequests s) (requestKeyOf uri ver) (length (requests s))\<rparr>,
          Awaits (length (requests s)))"
        using g nomarker unfolding resolveSymbols_def got_def[symmetric] by simp
      then show ?thesis using nomarker miss issued by blast
    qed
  qed
qed


lemma coalesced_issue:
  assumes c: "coalesced s"
    and nomarker: "mapGet (inFlightRequests s) (requestKeyOf uri ver) = None"
    and miss: "\<forall>v. ver = Some v \<longrightarrow> \<not> cacheHolds (cache s) uri v"
  shows "coalesced
           (s\<lparr>requests := requests s @
                 [\<lparr>requestKey = requestKeyOf uri ver, cacheKey = uri,
                   requestVersion = ver, stage = Pending\<rparr>],
               inFlightRequests :=
                 mapSet (inFlightRequests s) (requestKeyOf uri ver) (length (requests s))\<rparr>)"
    (is "coalesced ?s'")
proof (rule coalescedI)
  let ?n = "length (requests s)"
  let ?new = "\<lparr>requestKey = requestKeyOf uri ver, cacheKey = uri,
                   requestVersion = ver, stage = Pending\<rparr>"
  have rq: "requests ?s' = requests s @ [?new]" by simp
  have fl: "inFlightRequests ?s' = mapSet (inFlightRequests s) (requestKeyOf uri ver) ?n" by simp
  have ch: "cache ?s' = cache s" by simp
  have nth: "requests ?s' ! p = (if p < ?n then requests s ! p else ?new)" if "p < Suc ?n" for p
    using that by (auto simp: nth_append)
  have len: "length (requests ?s') = Suc ?n" by simp
  fix p k v
  show "p < length (requests ?s') \<Longrightarrow>
         requestKey (requests ?s' ! p)
           = requestKeyOf (cacheKey (requests ?s' ! p)) (requestVersion (requests ?s' ! p))"
    using coalescedD(1)[OF c, of p] by (auto simp: nth_append)
  show "mapGet (inFlightRequests ?s') k = Some p \<Longrightarrow>
         p < length (requests ?s') \<and> requestKey (requests ?s' ! p) = k
         \<and> \<not> isSettled (stage (requests ?s' ! p))"
  proof -
    assume a: "mapGet (inFlightRequests ?s') k = Some p"
    show ?thesis
    proof (cases "k = requestKeyOf uri ver")
      case True
      then have "p = ?n" using a by (simp add: mapGet_mapSet)
      then show ?thesis using True by (simp add: isSettled_def)
    next
      case False
      then have "mapGet (inFlightRequests s) k = Some p" using a by (simp add: mapGet_mapSet)
      then show ?thesis using coalescedD(2)[OF c, of k p] by (auto simp: nth_append)
    qed
  qed
  show "p < length (requests ?s') \<Longrightarrow> \<not> isSettled (stage (requests ?s' ! p)) \<Longrightarrow>
         mapGet (inFlightRequests ?s') (requestKey (requests ?s' ! p)) = Some p"
  proof -
    assume a: "p < length (requests ?s')" "\<not> isSettled (stage (requests ?s' ! p))"
    show ?thesis
    proof (cases "p < ?n")
      case True
      then have old: "mapGet (inFlightRequests s) (requestKey (requests s ! p)) = Some p"
        using a coalescedD(3)[OF c, of p] by (simp add: nth_append)
      then have "requestKey (requests s ! p) \<noteq> requestKeyOf uri ver" using nomarker by auto
      then show ?thesis using True old by (simp add: nth_append mapGet_mapSet)
    next
      case False
      then have "p = ?n" using a(1) by simp
      then show ?thesis by (simp add: mapGet_mapSet)
    qed
  qed
  show "p < length (requests ?s') \<Longrightarrow> beforeThen (stage (requests ?s' ! p)) \<Longrightarrow>
         requestVersion (requests ?s' ! p) = Some v \<Longrightarrow>
         \<not> cacheHolds (cache ?s') (cacheKey (requests ?s' ! p)) v"
  proof -
    assume a: "p < length (requests ?s')" "beforeThen (stage (requests ?s' ! p))"
      "requestVersion (requests ?s' ! p) = Some v"
    show ?thesis
    proof (cases "p < ?n")
      case True
      then show ?thesis using a coalescedD(4)[OF c, of p v] by (simp add: nth_append)
    next
      case False
      then have "p = ?n" using a(1) by simp
      then show ?thesis using a(3) miss by simp
    qed
  qed
qed

lemma coalesced_resolveSymbols:
  assumes "coalesced s"
  shows "coalesced (fst (resolveSymbols s uri ver))"
proof (cases rule: resolveSymbols_cases[of ver s uri])
  case (hit v syms)
  have "coalesced (s\<lparr>cache := snd (getCachedSymbols (cache s) uri v)\<rparr>)"
    using assms by (rule coalesced_cache_lookup) (simp add: cacheHolds_getCachedSymbols)
  then show ?thesis using hit(3) by simp
next
  case (joined pending)
  then show ?thesis using assms by simp
next
  case issued
  show ?thesis unfolding issued(3) fst_conv using assms issued(1,2) by (rule coalesced_issue)
qed

lemma coalesced_externalSettles:
  assumes c: "coalesced s"
  shows "coalesced (externalSettles s p answer)"
proof (cases "p < length (requests s) \<and> stage (requests s ! p) = Pending")
  case False
  then have "externalSettles s p answer = s" by (auto simp: externalSettles_def)
  then show ?thesis using c by simp
next
  case True
  let ?syms = "case answer of Some syms \<Rightarrow> syms | None \<Rightarrow> []"
  let ?s' = "s\<lparr>requests := (requests s)[p := (requests s ! p)\<lparr>stage := Fetched ?syms\<rparr>]\<rparr>"
  have eq: "externalSettles s p answer = ?s'" using True by (simp add: externalSettles_def)
  have st: "isSettled (stage (requests ?s' ! q)) = isSettled (stage (requests s ! q))"
    "beforeThen (stage (requests ?s' ! q)) = beforeThen (stage (requests s ! q))"
    "requestKey (requests ?s' ! q) = requestKey (requests s ! q)"
    "cacheKey (requests ?s' ! q) = cacheKey (requests s ! q)"
    "requestVersion (requests ?s' ! q) = requestVersion (requests s ! q)"
    if "q < length (requests s)" for q
    using that True by (auto simp: nth_list_update isSettled_def beforeThen_def)
  have "coalesced ?s'"
  proof (rule coalescedI)
    fix q k v
    show "q < length (requests ?s') \<Longrightarrow>
         requestKey (requests ?s' ! q)
           = requestKeyOf (cacheKey (requests ?s' ! q)) (requestVersion (requests ?s' ! q))"
      using coalescedD(1)[OF c, of q] st[of q] by simp
    show "mapGet (inFlightRequests ?s') k = Some q \<Longrightarrow>
         q < length (requests ?s') \<and> requestKey (requests ?s' ! q) = k
         \<and> \<not> isSettled (stage (requests ?s' ! q))"
      using coalescedD(2)[OF c, of k q] st[of q] by simp
    show "q < length (requests ?s') \<Longrightarrow> \<not> isSettled (stage (requests ?s' ! q)) \<Longrightarrow>
         mapGet (inFlightRequests ?s') (requestKey (requests ?s' ! q)) = Some q"
      using coalescedD(3)[OF c, of q] st[of q] by simp
    show "q < length (requests ?s') \<Longrightarrow> beforeThen (stage (requests ?s' ! q)) \<Longrightarrow>
         requestVersion (requests ?s' ! q) = Some v \<Longrightarrow>
         \<not> cacheHolds (cache ?s') (cacheKey (requests ?s' ! q)) v"
      using coalescedD(4)[OF c, of q v] st[of q] by simp
  qed
  then show ?thesis by (simp only: eq)
qed

lemma coalesced_thenRuns:
  assumes c: "coalesced s"
  shows "coalesced (thenRuns s p)"
proof (cases "p < length (requests s) \<and> (\<exists>syms. stage (requests s ! p) = Fetched syms)")
  case False
  then have "thenRuns s p = s" by (auto simp: thenRuns_def split: stage.splits)
  then show ?thesis using c by simp
next
  case True
  then obtain syms where p: "p < length (requests s)" "stage (requests s ! p) = Fetched syms"
    by blast
  let ?c' = "case requestVersion (requests s ! p) of
               Some v \<Rightarrow> setCachedSymbols (cache s) (cacheKey (requests s ! p)) v syms
             | None \<Rightarrow> cache s"
  let ?s' = "s\<lparr>cache := ?c', requests := (requests s)[p := (requests s ! p)\<lparr>stage := Stored syms\<rparr>]\<rparr>"
  have eq: "thenRuns s p = ?s'" using p by (simp add: thenRuns_def)
  have pns: "\<not> isSettled (stage (requests s ! p))" using p(2) by (simp add: isSettled_def)
  have st: "isSettled (stage (requests ?s' ! q)) = isSettled (stage (requests s ! q))"
    "requestKey (requests ?s' ! q) = requestKey (requests s ! q)"
    "cacheKey (requests ?s' ! q) = cacheKey (requests s ! q)"
    "requestVersion (requests ?s' ! q) = requestVersion (requests s ! q)"
    if "q < length (requests s)" for q
    using that p by (auto simp: nth_list_update isSettled_def)
  have bt: "beforeThen (stage (requests ?s' ! q)) \<Longrightarrow>
      q \<noteq> p \<and> beforeThen (stage (requests s ! q))" if "q < length (requests s)" for q
    using that p by (auto simp: nth_list_update beforeThen_def split: if_splits)
  have "coalesced ?s'"
  proof (rule coalescedI)
    fix q k v
    show "q < length (requests ?s') \<Longrightarrow>
         requestKey (requests ?s' ! q)
           = requestKeyOf (cacheKey (requests ?s' ! q)) (requestVersion (requests ?s' ! q))"
      using coalescedD(1)[OF c, of q] st[of q] by simp
    show "mapGet (inFlightRequests ?s') k = Some q \<Longrightarrow>
         q < length (requests ?s') \<and> requestKey (requests ?s' ! q) = k
         \<and> \<not> isSettled (stage (requests ?s' ! q))"
      using coalescedD(2)[OF c, of k q] st[of q] by simp
    show "q < length (requests ?s') \<Longrightarrow> \<not> isSettled (stage (requests ?s' ! q)) \<Longrightarrow>
         mapGet (inFlightRequests ?s') (requestKey (requests ?s' ! q)) = Some q"
      using coalescedD(3)[OF c, of q] st[of q] by simp
    show "q < length (requests ?s') \<Longrightarrow> beforeThen (stage (requests ?s' ! q)) \<Longrightarrow>
         requestVersion (requests ?s' ! q) = Some v \<Longrightarrow>
         \<not> cacheHolds (cache ?s') (cacheKey (requests ?s' ! q)) v"
    proof -
      assume a: "q < length (requests ?s')" "beforeThen (stage (requests ?s' ! q))"
        "requestVersion (requests ?s' ! q) = Some v"
      then have q: "q < length (requests s)" by simp
      have qp: "q \<noteq> p" and qb: "beforeThen (stage (requests s ! q))"
        using bt[OF q] a(2) by simp_all
      have qv: "requestVersion (requests s ! q) = Some v" using a(3) st(4)[OF q] by simp
      have old: "\<not> cacheHolds (cache s) (cacheKey (requests s ! q)) v"
        using coalescedD(4)[OF c q qb qv] .
      have "\<not> cacheHolds ?c' (cacheKey (requests s ! q)) v"
      proof (cases "requestVersion (requests s ! p)")
        case None
        then show ?thesis using old by simp
      next
        case (Some w)
        show ?thesis
        proof
          assume "cacheHolds ?c' (cacheKey (requests s ! q)) v"
          then have "cacheHolds (setCachedSymbols (cache s) (cacheKey (requests s ! p)) w syms)
                       (cacheKey (requests s ! q)) v"
            using Some by simp
          then have same: "cacheKey (requests s ! q) = cacheKey (requests s ! p)" "v = w"
            using cacheHolds_setCachedSymbols old by blast+
          then have "requestKey (requests s ! q) = requestKey (requests s ! p)"
            using coalescedD(1)[OF c q] coalescedD(1)[OF c p(1)] qv Some by simp
          moreover have "mapGet (inFlightRequests s) (requestKey (requests s ! q)) = Some q"
            using coalescedD(3)[OF c q] beforeThen_not_settled[OF qb] by simp
          moreover have "mapGet (inFlightRequests s) (requestKey (requests s ! p)) = Some p"
            using coalescedD(3)[OF c p(1)] pns by simp
          ultimately show False using qp by simp
        qed
      qed
      then show ?thesis using st(3)[OF q] by simp
    qed
  qed
  then show ?thesis by (simp only: eq)
qed

lemma coalesced_finallyRuns:
  assumes c: "coalesced s"
  shows "coalesced (finallyRuns s p)"
proof (cases "p < length (requests s) \<and> (\<exists>syms. stage (requests s ! p) = Stored syms)")
  case False
  then have "finallyRuns s p = s" by (auto simp: finallyRuns_def split: stage.splits)
  then show ?thesis using c by simp
next
  case True
  then obtain syms where p: "p < length (requests s)" "stage (requests s ! p) = Stored syms"
    by blast
  let ?s' = "s\<lparr>inFlightRequests := mapDelete (inFlightRequests s) (requestKey (requests s ! p)),
               requests := (requests s)[p := (requests s ! p)\<lparr>stage := Settled syms\<rparr>]\<rparr>"
  have eq: "finallyRuns s p = ?s'" using p by (simp add: finallyRuns_def)
  have pns: "\<not> isSettled (stage (requests s ! p))" using p(2) by (simp add: isSettled_def)
  have pm: "mapGet (inFlightRequests s) (requestKey (requests s ! p)) = Some p"
    using coalescedD(3)[OF c p(1) pns] .
  have st: "requestKey (requests ?s' ! q) = requestKey (requests s ! q)"
    "cacheKey (requests ?s' ! q) = cacheKey (requests s ! q)"
    "requestVersion (requests ?s' ! q) = requestVersion (requests s ! q)"
    "q \<noteq> p \<Longrightarrow> stage (requests ?s' ! q) = stage (requests s ! q)"
    "isSettled (stage (requests ?s' ! p))"
    "\<not> beforeThen (stage (requests ?s' ! p))"
    if "q < length (requests s)" for q
    using that p by (auto simp: nth_list_update isSettled_def beforeThen_def)
  have "coalesced ?s'"
  proof (rule coalescedI)
    fix q k v
    show "q < length (requests ?s') \<Longrightarrow>
         requestKey (requests ?s' ! q)
           = requestKeyOf (cacheKey (requests ?s' ! q)) (requestVersion (requests ?s' ! q))"
      using coalescedD(1)[OF c, of q] st(1,2,3)[of q] by simp
    show "mapGet (inFlightRequests ?s') k = Some q \<Longrightarrow>
         q < length (requests ?s') \<and> requestKey (requests ?s' ! q) = k
         \<and> \<not> isSettled (stage (requests ?s' ! q))"
    proof -
      assume "mapGet (inFlightRequests ?s') k = Some q"
      then have k: "k \<noteq> requestKey (requests s ! p)" and m: "mapGet (inFlightRequests s) k = Some q"
        by (auto simp: mapGet_mapDelete split: if_splits)
      have old: "q < length (requests s)" "requestKey (requests s ! q) = k"
        "\<not> isSettled (stage (requests s ! q))"
        using coalescedD(2)[OF c m] by simp_all
      have "q \<noteq> p" using old(2) k by auto
      then show ?thesis using old st(1)[OF old(1)] st(4)[OF old(1)] by simp
    qed
    show "q < length (requests ?s') \<Longrightarrow> \<not> isSettled (stage (requests ?s' ! q)) \<Longrightarrow>
         mapGet (inFlightRequests ?s') (requestKey (requests ?s' ! q)) = Some q"
    proof -
      assume a: "q < length (requests ?s')" "\<not> isSettled (stage (requests ?s' ! q))"
      then have q: "q < length (requests s)" by simp
      have qp: "q \<noteq> p" using a(2) st(5)[OF q] by auto
      then have "\<not> isSettled (stage (requests s ! q))" using a(2) st(4)[OF q] by simp
      then have qm: "mapGet (inFlightRequests s) (requestKey (requests s ! q)) = Some q"
        using coalescedD(3)[OF c q] by simp
      then have "requestKey (requests s ! q) \<noteq> requestKey (requests s ! p)"
        using pm qp by auto
      then show ?thesis using qm st(1)[OF q] by (simp add: mapGet_mapDelete)
    qed
    show "q < length (requests ?s') \<Longrightarrow> beforeThen (stage (requests ?s' ! q)) \<Longrightarrow>
         requestVersion (requests ?s' ! q) = Some v \<Longrightarrow>
         \<not> cacheHolds (cache ?s') (cacheKey (requests ?s' ! q)) v"
    proof -
      assume a: "q < length (requests ?s')" "beforeThen (stage (requests ?s' ! q))"
        "requestVersion (requests ?s' ! q) = Some v"
      then have q: "q < length (requests s)" by simp
      have qp: "q \<noteq> p" using a(2) st(6)[OF q] by auto
      then show ?thesis
        using coalescedD(4)[OF c q, of v] a st(2,3)[OF q] st(4)[OF q] by simp
    qed
  qed
  then show ?thesis by (simp only: eq)
qed

lemma coalesced_applyEvent:
  "coalesced s \<Longrightarrow> \<not> isInvalidation ev \<Longrightarrow> coalesced (applyEvent s ev)"
  by (cases ev)
     (simp_all add: coalesced_resolveSymbols coalesced_externalSettles coalesced_thenRuns
       coalesced_finallyRuns)

lemma coalesced_foldl:
  "coalesced s \<Longrightarrow> \<forall>ev\<in>set evs. \<not> isInvalidation ev \<Longrightarrow> coalesced (foldl applyEvent s evs)"
  by (induction evs arbitrary: s) (simp_all add: coalesced_applyEvent)

lemma coalesced_runEvents:
  "\<forall>ev\<in>set evs. \<not> isInvalidation ev \<Longrightarrow> coalesced (runEvents evs)"
  unfolding runEvents_def by (rule coalesced_foldl[OF coalesced_initial])

lemma coalesced_pending_unique:
  assumes "coalesced s" "pendingFor s p uri ver" "pendingFor s q uri ver"
  shows "p = q"
proof -
  have p: "p < length (requests s)" "\<not> isSettled (stage (requests s ! p))"
    and q: "q < length (requests s)" "\<not> isSettled (stage (requests s ! q))"
    using assms(2,3) by (simp_all add: pendingFor_def isSettled_def)
  have "requestKey (requests s ! p) = requestKey (requests s ! q)"
    using coalescedD(1)[OF assms(1) p(1)] coalescedD(1)[OF assms(1) q(1)] assms(2,3)
    by (simp add: pendingFor_def)
  moreover have "mapGet (inFlightRequests s) (requestKey (requests s ! p)) = Some p"
    using coalescedD(3)[OF assms(1) p] .
  moreover have "mapGet (inFlightRequests s) (requestKey (requests s ! q)) = Some q"
    using coalescedD(3)[OF assms(1) q] .
  ultimately have "Some p = Some q" by (simp only:)
  then show ?thesis by simp
qed

lemma coalesced_pending_joined:
  assumes "coalesced s" "pendingFor s p uri ver"
  shows "resolveSymbols s uri ver = (s, Awaits p)"
proof -
  have p: "p < length (requests s)" "stage (requests s ! p) = Pending"
    "cacheKey (requests s ! p) = uri" "requestVersion (requests s ! p) = ver"
    using assms(2) by (simp_all add: pendingFor_def)
  have ns: "\<not> isSettled (stage (requests s ! p))" and bt: "beforeThen (stage (requests s ! p))"
    using p(2) by (simp_all add: isSettled_def beforeThen_def)
  have key: "requestKey (requests s ! p) = requestKeyOf uri ver"
    using coalescedD(1)[OF assms(1) p(1)] p(3,4) by simp
  have marker: "mapGet (inFlightRequests s) (requestKeyOf uri ver) = Some p"
    using coalescedD(3)[OF assms(1) p(1) ns] key by simp
  have nohit: "\<not> cacheHolds (cache s) uri v" if "ver = Some v" for v
    using coalescedD(4)[OF assms(1) p(1) bt, of v] p(3,4) that by simp
  show ?thesis
  proof (cases rule: resolveSymbols_cases[of ver s uri])
    case (hit v syms)
    then have "cacheHolds (cache s) uri v"
      by (auto simp: getCachedSymbols_def cacheHolds_def split: option.splits if_splits)
    then show ?thesis using nohit hit(1) by simp
  next
    case (joined pending)
    then show ?thesis using marker by simp
  next
    case issued
    then show ?thesis using marker by simp
  qed
qed



lemma settle_removes_marker:
  assumes c: "coalesced s" and pf: "pendingFor s p uri ver"
  shows "mapGet (inFlightRequests (finallyRuns (thenRuns (externalSettles s p answer) p) p))
           (requestKeyOf uri ver) = None"
    and "isSettled (stage (requests (finallyRuns (thenRuns (externalSettles s p answer) p) p) ! p))"
proof -
  have p: "p < length (requests s)" "stage (requests s ! p) = Pending"
    "cacheKey (requests s ! p) = uri" "requestVersion (requests s ! p) = ver"
    using pf by (simp_all add: pendingFor_def)
  have key: "requestKey (requests s ! p) = requestKeyOf uri ver"
    using coalescedD(1)[OF c p(1)] p(3,4) by simp
  let ?x = "case answer of Some syms \<Rightarrow> syms | None \<Rightarrow> []"
  let ?s1 = "externalSettles s p answer"
  let ?s2 = "thenRuns ?s1 p"
  let ?s3 = "finallyRuns ?s2 p"
  have s1: "length (requests ?s1) = length (requests s)" "stage (requests ?s1 ! p) = Fetched ?x"
    "requestKey (requests ?s1 ! p) = requestKey (requests s ! p)"
    "inFlightRequests ?s1 = inFlightRequests s"
    using p by (simp_all add: externalSettles_def)
  have s2: "length (requests ?s2) = length (requests s)" "stage (requests ?s2 ! p) = Stored ?x"
    "requestKey (requests ?s2 ! p) = requestKey (requests s ! p)"
    "inFlightRequests ?s2 = inFlightRequests s"
    using p(1) s1 by (simp_all add: thenRuns_def)
  have s3: "inFlightRequests ?s3 = mapDelete (inFlightRequests s) (requestKey (requests s ! p))"
    "stage (requests ?s3 ! p) = Settled ?x"
    using p(1) s2 by (simp_all add: finallyRuns_def)
  show "mapGet (inFlightRequests ?s3) (requestKeyOf uri ver) = None"
    by (simp add: s3(1) key mapGet_mapDelete)
  show "isSettled (stage (requests ?s3 ! p))" by (simp add: s3(2) isSettled_def)
qed

text \<open>
  Claim C3, as the code has it. As long as neither \<open>clearSymbolCache\<close> nor
  \<open>clearAllSymbolCache\<close> has run: for every document and version-or-untracked, at most one
  external lookup is unanswered at any time; a \<open>resolveSymbols\<close> call for a document and
  version whose lookup is unanswered changes nothing, issues no external call, and returns
  that same request; a marker never points to a settled request; and once the provider has
  answered, with symbols or with a failure, the \<open>then\<close> and \<open>finally\<close> callbacks leave no marker
  for the key.
\<close>

theorem coalescing_without_invalidation:
  "(\<forall>ev\<in>set evs. \<not> isInvalidation ev) \<longrightarrow>
     (\<forall>p q. pendingFor (runEvents evs) p uri ver \<and> pendingFor (runEvents evs) q uri ver
        \<longrightarrow> p = q)
     \<and> (\<forall>p. pendingFor (runEvents evs) p uri ver \<longrightarrow>
           resolveSymbols (runEvents evs) uri ver = (runEvents evs, Awaits p))
     \<and> (\<forall>k p. mapGet (inFlightRequests (runEvents evs)) k = Some p \<longrightarrow>
           p < length (requests (runEvents evs))
           \<and> \<not> isSettled (stage (requests (runEvents evs) ! p)))
     \<and> (\<forall>p answer. pendingFor (runEvents evs) p uri ver \<longrightarrow>
           mapGet (inFlightRequests
                     (finallyRuns (thenRuns (externalSettles (runEvents evs) p answer) p) p))
             (requestKeyOf uri ver) = None
           \<and> isSettled (stage (requests
                     (finallyRuns (thenRuns (externalSettles (runEvents evs) p answer) p) p) ! p)))"
proof
  assume "\<forall>ev\<in>set evs. \<not> isInvalidation ev"
  then have c: "coalesced (runEvents evs)" by (rule coalesced_runEvents)
  show "(\<forall>p q. pendingFor (runEvents evs) p uri ver \<and> pendingFor (runEvents evs) q uri ver
        \<longrightarrow> p = q)
     \<and> (\<forall>p. pendingFor (runEvents evs) p uri ver \<longrightarrow>
           resolveSymbols (runEvents evs) uri ver = (runEvents evs, Awaits p))
     \<and> (\<forall>k p. mapGet (inFlightRequests (runEvents evs)) k = Some p \<longrightarrow>
           p < length (requests (runEvents evs))
           \<and> \<not> isSettled (stage (requests (runEvents evs) ! p)))
     \<and> (\<forall>p answer. pendingFor (runEvents evs) p uri ver \<longrightarrow>
           mapGet (inFlightRequests
                     (finallyRuns (thenRuns (externalSettles (runEvents evs) p answer) p) p))
             (requestKeyOf uri ver) = None
           \<and> isSettled (stage (requests
                     (finallyRuns (thenRuns (externalSettles (runEvents evs) p answer) p) p) ! p)))"
    using coalesced_pending_unique[OF c] coalesced_pending_joined[OF c] coalescedD(2)[OF c]
      settle_removes_marker[OF c]
    by blast
qed


lemma oneLookup_facts:
  "pendingFor (runEvents oneLookup) 0 ''u'' (Some 1)"
  "mapGet (inFlightRequests (runEvents oneLookup)) (requestKeyOf ''u'' (Some 1)) = Some 0"
  "length (requests (runEvents oneLookup)) = 1"
  unfolding oneLookup_def by code_simp+

text \<open>
  One call has issued a lookup. A second call for the same document and version returns
  the same request and leaves the state, with its single request, as it is; after a failed
  answer and the two callbacks the marker is gone.
\<close>

theorem coalescing_without_invalidation_witness:
  "\<not> isInvalidation (Resolve ''u'' (Some 1))
   \<and> pendingFor (runEvents oneLookup) 0 ''u'' (Some 1)
   \<and> resolveSymbols (runEvents oneLookup) ''u'' (Some 1) = (runEvents oneLookup, Awaits 0)
   \<and> length (requests (fst (resolveSymbols (runEvents oneLookup) ''u'' (Some 1)))) = 1
   \<and> mapGet (inFlightRequests (runEvents oneLookup)) (requestKeyOf ''u'' (Some 1)) = Some 0
   \<and> mapGet (inFlightRequests
               (finallyRuns (thenRuns (externalSettles (runEvents oneLookup) 0 None) 0) 0))
        (requestKeyOf ''u'' (Some 1)) = None"
proof -
  have n: "\<forall>ev\<in>set oneLookup. \<not> isInvalidation ev" by (simp add: oneLookup_def)
  note t = coalescing_without_invalidation[of oneLookup "''u''" "Some 1"]
  have j: "resolveSymbols (runEvents oneLookup) ''u'' (Some 1) = (runEvents oneLookup, Awaits 0)"
    using t n oneLookup_facts(1) by blast
  have m: "mapGet (inFlightRequests
               (finallyRuns (thenRuns (externalSettles (runEvents oneLookup) 0 None) 0) 0))
        (requestKeyOf ''u'' (Some 1)) = None"
    using t n oneLookup_facts(1) by blast
  show ?thesis using j m oneLookup_facts by simp
qed

text \<open>
  With an invalidation in between the claim fails: the first lookup is still unanswered
  when \<open>clearSymbolCache\<close> removes its marker, and the next call for the same document and
  version issues a second external lookup. Two lookups for one key are then in flight.
\<close>

theorem coalescing_invalidation_counterexample:
  "pendingFor (runEvents [Resolve ''u'' (Some 1), ClearSymbolCache ''u'']) 0 ''u'' (Some 1)
   \<and> snd (resolveSymbols (runEvents [Resolve ''u'' (Some 1), ClearSymbolCache ''u''])
            ''u'' (Some 1)) = Awaits 1
   \<and> pendingFor (runEvents lookupClearedAndRepeated) 0 ''u'' (Some 1)
   \<and> pendingFor (runEvents lookupClearedAndRepeated) 1 ''u'' (Some 1)
   \<and> (0 :: nat) \<noteq> 1
   \<and> length (requests (runEvents lookupClearedAndRepeated)) = 2"
  unfolding lookupClearedAndRepeated_def by code_simp

end
